theory Spec2Isabelle
  imports Complex_Main "HOL-Library.Char_ord" "HOL-Library.List_Lexorder" "HOL-Library.Log_Nat"
begin

section \<open>JavaScript values\<close>

subsection \<open>Numbers\<close>

text \<open>
  A JavaScript number is an IEEE 754 double: \<open>NaN\<close>, one of the two infinities, or a
  finite value, kept here as the rational it denotes. The two zeros are one value: nothing
  the modelled functions compute tells them apart (every divisor below is a count or a
  difference \<open>max - min\<close>, which is never the negative zero, and the comparisons \<open>>\<close>
  and \<open>===\<close> treat the zeros alike).
\<close>

datatype jsnum = NaN | NInf | Fin rat | PInf

text \<open>
  Arithmetic rounds the exact result to the nearest double, ties to the even significand.
  \<open>rne\<close> rounds a rational to the nearest integer, ties to even; \<open>bexp x\<close> is the binary
  exponent of a positive \<open>x\<close> (\<open>2^e \<le> x < 2^(e+1)\<close>); a double has 53 significant bits,
  so the spacing of the doubles around \<open>x\<close> is \<open>2^(e - 52)\<close>, with \<open>e\<close> no smaller
  than \<open>-1022\<close> (the subnormal range has the spacing \<open>2^-1074\<close>); a result whose exponent
  reaches \<open>1024\<close> overflows to an infinity.
\<close>

definition rne :: "rat \<Rightarrow> int" where
  "rne x = (let f = \<lfloor>x\<rfloor>; d = x - of_int f in
     if d < 1/2 then f else if 1/2 < d then f + 1 else if even f then f else f + 1)"

definition bexp :: "rat \<Rightarrow> int" where
  "bexp x = (if 1 \<le> x then bitlen \<lfloor>x\<rfloor> - 1 else - bitlen (\<lceil>1 / x\<rceil> - 1))"

definition fl_pos :: "rat \<Rightarrow> rat" where
  "fl_pos x = (let q = 2 powi (max (bexp x) (- 1022) - 52) in of_int (rne (x / q)) * q)"

definition js_round :: "rat \<Rightarrow> jsnum" where
  "js_round x =
     (if x = 0 then Fin 0
      else if 1024 \<le> bexp (fl_pos \<bar>x\<bar>) then (if 0 < x then PInf else NInf)
      else Fin (sgn x * fl_pos \<bar>x\<bar>))"

text \<open>
  The operators \<open><\<close>, \<open>>\<close>, \<open><=\<close> and \<open>===\<close>: every comparison with \<open>NaN\<close> is false.
\<close>

fun js_lt :: "jsnum \<Rightarrow> jsnum \<Rightarrow> bool" where
  "js_lt NaN b = False"
| "js_lt a NaN = False"
| "js_lt NInf NInf = False"
| "js_lt NInf b = True"
| "js_lt (Fin x) NInf = False"
| "js_lt (Fin x) (Fin y) = (x < y)"
| "js_lt (Fin x) PInf = True"
| "js_lt PInf b = False"

definition js_gt :: "jsnum \<Rightarrow> jsnum \<Rightarrow> bool" where
  "js_gt a b = js_lt b a"

definition js_le :: "jsnum \<Rightarrow> jsnum \<Rightarrow> bool" where
  "js_le a b = (a \<noteq> NaN \<and> b \<noteq> NaN \<and> \<not> js_lt b a)"

fun js_strict_eq :: "jsnum \<Rightarrow> jsnum \<Rightarrow> bool" where
  "js_strict_eq NaN b = False"
| "js_strict_eq a NaN = False"
| "js_strict_eq a b = (a = b)"

text \<open>The operators \<open>-\<close>, \<open>*\<close> and \<open>/\<close>.\<close>

fun js_sub :: "jsnum \<Rightarrow> jsnum \<Rightarrow> jsnum" where
  "js_sub NaN b = NaN"
| "js_sub a NaN = NaN"
| "js_sub PInf PInf = NaN"
| "js_sub NInf NInf = NaN"
| "js_sub PInf b = PInf"
| "js_sub NInf b = NInf"
| "js_sub (Fin x) PInf = NInf"
| "js_sub (Fin x) NInf = PInf"
| "js_sub (Fin x) (Fin y) = js_round (x - y)"

fun js_mul :: "jsnum \<Rightarrow> jsnum \<Rightarrow> jsnum" where
  "js_mul NaN b = NaN"
| "js_mul a NaN = NaN"
| "js_mul (Fin x) (Fin y) = js_round (x * y)"
| "js_mul (Fin x) PInf = (if x = 0 then NaN else if 0 < x then PInf else NInf)"
| "js_mul (Fin x) NInf = (if x = 0 then NaN else if 0 < x then NInf else PInf)"
| "js_mul PInf (Fin y) = (if y = 0 then NaN else if 0 < y then PInf else NInf)"
| "js_mul NInf (Fin y) = (if y = 0 then NaN else if 0 < y then NInf else PInf)"
| "js_mul PInf PInf = PInf"
| "js_mul NInf NInf = PInf"
| "js_mul PInf NInf = NInf"
| "js_mul NInf PInf = NInf"

fun js_div :: "jsnum \<Rightarrow> jsnum \<Rightarrow> jsnum" where
  "js_div NaN b = NaN"
| "js_div a NaN = NaN"
| "js_div (Fin x) (Fin y) =
     (if y = 0 then (if x = 0 then NaN else if 0 < x then PInf else NInf)
      else js_round (x / y))"
| "js_div (Fin x) b = Fin 0"
| "js_div PInf (Fin y) = (if 0 \<le> y then PInf else NInf)"
| "js_div NInf (Fin y) = (if 0 \<le> y then NInf else PInf)"
| "js_div a b = NaN"

text \<open>
  \<open>Math.min(...xs)\<close> and \<open>Math.max(...xs)\<close>: \<open>NaN\<close> if any argument is, \<open>Infinity\<close> and
  \<open>-Infinity\<close> for no argument. \<open>Math.floor\<close> keeps \<open>NaN\<close> and the infinities.
\<close>

fun js_min2 :: "jsnum \<Rightarrow> jsnum \<Rightarrow> jsnum" where
  "js_min2 NaN b = NaN"
| "js_min2 a NaN = NaN"
| "js_min2 a b = (if js_lt b a then b else a)"

fun js_max2 :: "jsnum \<Rightarrow> jsnum \<Rightarrow> jsnum" where
  "js_max2 NaN b = NaN"
| "js_max2 a NaN = NaN"
| "js_max2 a b = (if js_lt a b then b else a)"

definition Math_min :: "jsnum list \<Rightarrow> jsnum" where
  "Math_min xs = foldl js_min2 PInf xs"

definition Math_max :: "jsnum list \<Rightarrow> jsnum" where
  "Math_max xs = foldl js_max2 NInf xs"

fun Math_floor :: "jsnum \<Rightarrow> jsnum" where
  "Math_floor (Fin x) = Fin (of_int \<lfloor>x\<rfloor>)"
| "Math_floor a = a"

subsection \<open>Arrays, sets and objects\<close>

text \<open>
  An array is a list. \<open>xs[i]\<close> is \<open>undefined\<close> out of range (\<open>None\<close>).
  \<open>xs.slice(start, end)\<close> takes its bounds through \<open>ToIntegerOrInfinity\<close> and counts a
  negative bound from the end of the array; \<open>xs.slice(start)\<close> runs to the end.
  \<open>xs.indexOf(x)\<close> is the first index of \<open>x\<close>, or \<open>-1\<close>.
\<close>

fun nth_opt :: "'a list \<Rightarrow> nat \<Rightarrow> 'a option" where
  "nth_opt [] i = None"
| "nth_opt (x # xs) 0 = Some x"
| "nth_opt (x # xs) (Suc i) = nth_opt xs i"

fun rel_index :: "jsnum \<Rightarrow> nat \<Rightarrow> nat" where
  "rel_index NaN len = 0"
| "rel_index NInf len = 0"
| "rel_index PInf len = len"
| "rel_index (Fin x) len =
     (let k = (if x < 0 then \<lceil>x\<rceil> else \<lfloor>x\<rfloor>)
      in if k < 0 then nat (max (int len + k) 0) else min (nat k) len)"

definition js_slice :: "'a list \<Rightarrow> jsnum \<Rightarrow> jsnum \<Rightarrow> 'a list" where
  "js_slice xs start fin =
     (let from = rel_index start (length xs); to = rel_index fin (length xs)
      in take (to - from) (drop from xs))"

definition js_slice_from :: "'a list \<Rightarrow> jsnum \<Rightarrow> 'a list" where
  "js_slice_from xs start = drop (rel_index start (length xs)) xs"

fun indexOf :: "'a list \<Rightarrow> 'a \<Rightarrow> int" where
  "indexOf [] x = - 1"
| "indexOf (y # ys) x =
     (if y = x then 0 else (let r = indexOf ys x in if r < 0 then - 1 else r + 1))"

text \<open>
  \<open>[...new Set(xs)]\<close>: a \<open>Set\<close> keeps its elements in the order of their first insertion.
\<close>

definition set_add :: "'a list \<Rightarrow> 'a \<Rightarrow> 'a list" where
  "set_add s x = (if x \<in> set s then s else s @ [x])"

definition new_Set :: "'a list \<Rightarrow> 'a list" where
  "new_Set xs = foldl set_add [] xs"

text \<open>
  An object with string keys is the list of its properties in the order of their creation,
  no key twice: \<open>obj[k] = v\<close> overwrites the property \<open>k\<close> in place or appends it,
  \<open>obj[k]\<close> is \<open>map_of obj k\<close>, \<open>Object.keys\<close> is \<open>map fst\<close> and \<open>Object.values\<close> is
  \<open>map snd\<close>. (JavaScript lists keys that are array indices first; no function below
  depends on the order of the keys.)
\<close>

type_synonym 'v js_object = "(string \<times> 'v) list"

fun obj_set :: "'v js_object \<Rightarrow> string \<Rightarrow> 'v \<Rightarrow> 'v js_object" where
  "obj_set [] k v = [(k, v)]"
| "obj_set ((k', v') # ps) k v = (if k' = k then (k, v) # ps else (k', v') # obj_set ps k v)"

datatype js_error = TypeError | Error string

subsection \<open>Strings\<close>

text \<open>
  A string is the list of its code units, here those below 256. \<open>trim\<close> removes white
  space and line terminators at both ends, \<open>trimStart\<close> at the start; \<open>s.split(c)\<close> cuts
  at every \<open>c\<close> and always returns at least one piece.
\<close>

definition is_ws :: "char \<Rightarrow> bool" where
  "is_ws c = (c \<in> set [CHR 0x09, CHR 0x0A, CHR 0x0B, CHR 0x0C, CHR 0x0D, CHR 0x20, CHR 0xA0])"

definition trimStart :: "string \<Rightarrow> string" where
  "trimStart s = dropWhile is_ws s"

definition trim :: "string \<Rightarrow> string" where
  "trim s = rev (dropWhile is_ws (rev (dropWhile is_ws s)))"

fun split_on :: "char \<Rightarrow> string \<Rightarrow> string list" where
  "split_on c [] = [[]]"
| "split_on c (x # xs) =
     (if x = c then [] # split_on c xs
      else (case split_on c xs of w # ws \<Rightarrow> (x # w) # ws | [] \<Rightarrow> [[x]]))"

subsection \<open>\<open>Number(s)\<close> and \<open>parseFloat(s)\<close>\<close>

text \<open>
  \<open>Number\<close> applied to a string (ECMAScript \<open>StringToNumber\<close>): the trimmed string must
  be empty (\<open>0\<close>), a decimal literal with an optional sign (digits with an optional
  fraction and exponent, or \<open>Infinity\<close>), or an unsigned binary, octal or hexadecimal
  integer literal; anything else is \<open>NaN\<close>. \<open>parseFloat\<close> reads the longest prefix of
  the string, after leading white space, that is a decimal literal.
\<close>

definition is_digit :: "char \<Rightarrow> bool" where
  "is_digit c = (CHR ''0'' \<le> c \<and> c \<le> CHR ''9'')"

definition digit_of :: "char \<Rightarrow> nat option" where
  "digit_of c =
     (if CHR ''0'' \<le> c \<and> c \<le> CHR ''9'' then Some (of_char c - 48)
      else if CHR ''a'' \<le> c \<and> c \<le> CHR ''f'' then Some (of_char c - 87)
      else if CHR ''A'' \<le> c \<and> c \<le> CHR ''F'' then Some (of_char c - 55)
      else None)"

text \<open>The value of a string of digits in a radix; \<open>None\<close> if a character is no digit of it.\<close>

fun digits_val :: "nat \<Rightarrow> nat \<Rightarrow> string \<Rightarrow> nat option" where
  "digits_val radix acc [] = Some acc"
| "digits_val radix acc (c # cs) =
     (case digit_of c of
        None \<Rightarrow> None
      | Some d \<Rightarrow> if d < radix then digits_val radix (acc * radix + d) cs else None)"

definition nonempty_digits :: "nat \<Rightarrow> string \<Rightarrow> nat option" where
  "nonempty_digits radix s = (if s = [] then None else digits_val radix 0 s)"

text \<open>
  An exponent part \<open>e\<close>, \<open>E\<close> with an optional sign and at least one digit: its value and
  what follows it in the string.
\<close>

definition exponent_part :: "string \<Rightarrow> (int \<times> string) option" where
  "exponent_part s =
     (case s of
        [] \<Rightarrow> None
      | c # t \<Rightarrow>
          if c = CHR ''e'' \<or> c = CHR ''E'' then
            (let neg = (case t of [] \<Rightarrow> False | d # u \<Rightarrow> d = CHR ''-'');
                 u = (case t of [] \<Rightarrow> [] | d # u \<Rightarrow> if d = CHR ''+'' \<or> d = CHR ''-'' then u else t);
                 ds = takeWhile is_digit u
             in case nonempty_digits 10 ds of
                  None \<Rightarrow> None
                | Some n \<Rightarrow> Some (if neg then - int n else int n, dropWhile is_digit u))
          else None)"

text \<open>
  The longest unsigned decimal literal at the start of a string (other than \<open>Infinity\<close>):
  its mathematical value and the rest of the string.
\<close>

definition decimal_prefix :: "string \<Rightarrow> (rat \<times> string) option" where
  "decimal_prefix s =
     (let ip = takeWhile is_digit s; r1 = dropWhile is_digit s;
          dot = (case r1 of [] \<Rightarrow> False | c # t \<Rightarrow> c = CHR ''.'');
          fp = (if dot then takeWhile is_digit (tl r1) else []);
          r2 = (if dot then dropWhile is_digit (tl r1) else r1);
          ex = (case exponent_part r2 of None \<Rightarrow> (0, r2) | Some p \<Rightarrow> p)
      in case nonempty_digits 10 (ip @ fp) of
           None \<Rightarrow> None
         | Some m \<Rightarrow> Some (of_nat m * 10 powi (fst ex - int (length fp)), snd ex))"

definition signed_of :: "string \<Rightarrow> bool \<times> string" where
  "signed_of s =
     (case s of
        [] \<Rightarrow> (False, [])
      | c # t \<Rightarrow> if c = CHR ''-'' then (True, t) else if c = CHR ''+'' then (False, t) else (False, s))"

definition radix_literal :: "string \<Rightarrow> jsnum option" where
  "radix_literal s =
     (case s of
        c # x # t \<Rightarrow>
          if c = CHR ''0'' \<and> (x = CHR ''x'' \<or> x = CHR ''X'') then
            Some (case nonempty_digits 16 t of None \<Rightarrow> NaN | Some n \<Rightarrow> js_round (of_nat n))
          else if c = CHR ''0'' \<and> (x = CHR ''o'' \<or> x = CHR ''O'') then
            Some (case nonempty_digits 8 t of None \<Rightarrow> NaN | Some n \<Rightarrow> js_round (of_nat n))
          else if c = CHR ''0'' \<and> (x = CHR ''b'' \<or> x = CHR ''B'') then
            Some (case nonempty_digits 2 t of None \<Rightarrow> NaN | Some n \<Rightarrow> js_round (of_nat n))
          else None
      | _ \<Rightarrow> None)"

definition Number :: "string \<Rightarrow> jsnum" where
  "Number s =
     (let t = trim s in
      if t = [] then Fin 0
      else case radix_literal t of
        Some n \<Rightarrow> n
      | None \<Rightarrow>
          (let neg = fst (signed_of t); u = snd (signed_of t) in
           if u = ''Infinity'' then (if neg then NInf else PInf)
           else case decimal_prefix u of
             None \<Rightarrow> NaN
           | Some (v, rest) \<Rightarrow> if rest = [] then js_round (if neg then - v else v) else NaN))"

definition parseFloat :: "string \<Rightarrow> jsnum" where
  "parseFloat s =
     (let t = trimStart s; neg = fst (signed_of t); u = snd (signed_of t) in
      if take 8 u = ''Infinity'' then (if neg then NInf else PInf)
      else case decimal_prefix u of
        None \<Rightarrow> NaN
      | Some (v, rest) \<Rightarrow> js_round (if neg then - v else v))"

section \<open>The digit demo: \<open>src/week3\<close>\<close>

subsection \<open>\<open>MNISTDataLoader.loadCSVFile\<close> (\<open>data-loader.js\<close>, lines 14-62)\<close>

text \<open>
  \<^verbatim>\<open>
    const lines = content.split('\n').filter(line => line.trim() !== '');
    const labels = [];
    const pixels = [];
    for (const line of lines) {
        const values = line.split(',').map(Number);
        // Skip lines that don't have exactly 785 values (label + 784 pixels)
        if (values.length !== 785) continue;
        labels.push(values[0]); // First value is label
        pixels.push(values.slice(1)); // Remaining 784 values are pixels
    }
    if (labels.length === 0) {
        reject(new Error('No valid data found in file'));
        return;
    }
  \<close>
  The model is given the content of the file and returns the two arrays the tensors are
  built from, or the error the promise is rejected with.
\<close>

definition values_of :: "string \<Rightarrow> jsnum list" where
  "values_of line = map Number (split_on CHR '','' line)"

fun parse_lines :: "string list \<Rightarrow> jsnum list \<times> jsnum list list" where
  "parse_lines [] = ([], [])"
| "parse_lines (line # lines) =
     (let values = values_of line; rest = parse_lines lines
      in if length values \<noteq> 785 then rest
         else (hd values # fst rest, tl values # snd rest))"

definition loadCSVFile :: "string \<Rightarrow> js_error + jsnum list \<times> jsnum list list" where
  "loadCSVFile content =
     (let lines = filter (\<lambda>line. trim line \<noteq> []) (split_on CHR 0x0A content);
          parsed = parse_lines lines
      in if length (fst parsed) = 0 then Inl (Error ''No valid data found in file'')
         else Inr parsed)"

text \<open>The content of a file with the given lines, each ended by a line feed but the last.\<close>

fun join_lines :: "string list \<Rightarrow> string" where
  "join_lines [] = []"
| "join_lines [l] = l"
| "join_lines (l # ls) = l @ CHR 0x0A # join_lines ls"

subsection \<open>\<open>MNISTDataLoader.splitTrainVal\<close> (\<open>data-loader.js\<close>, lines 81-95)\<close>

text \<open>
  \<^verbatim>\<open>
    const numVal = Math.floor(xs.shape[0] * valRatio);
    const numTrain = xs.shape[0] - numVal;
    const trainXs = xs.slice([0, 0, 0, 0], [numTrain, 28, 28, 1]);
    const trainYs = ys.slice([0, 0], [numTrain, 10]);
    const valXs = xs.slice([numTrain, 0, 0, 0], [numVal, 28, 28, 1]);
    const valYs = ys.slice([numTrain, 0], [numVal, 10]);
  \<close>
  A tensor is the list of its entries along the first axis, the only axis the function
  cuts. The library's \<open>slice(begin, size)\<close> returns the \<open>size\<close> entries from \<open>begin\<close>
  (all that remain for the size \<open>-1\<close>) and throws when the range is not inside the tensor.
\<close>

fun as_int :: "jsnum \<Rightarrow> int option" where
  "as_int (Fin x) = (if of_int \<lfloor>x\<rfloor> = x then Some \<lfloor>x\<rfloor> else None)"
| "as_int a = None"

definition tf_slice :: "'a list \<Rightarrow> jsnum \<Rightarrow> jsnum \<Rightarrow> js_error + 'a list" where
  "tf_slice t begin count =
     (case (as_int begin, as_int count) of
        (Some b, Some n) \<Rightarrow>
          if 0 \<le> b \<and> 0 \<le> n \<and> b + n \<le> int (length t) then Inr (take (nat n) (drop (nat b) t))
          else if 0 \<le> b \<and> n = - 1 \<and> b \<le> int (length t) then Inr (drop (nat b) t)
          else Inl (Error ''slice'')
      | _ \<Rightarrow> Inl (Error ''slice''))"

definition splitTrainVal ::
  "'a list \<Rightarrow> 'b list \<Rightarrow> jsnum \<Rightarrow> js_error + ('a list \<times> 'b list \<times> 'a list \<times> 'b list)" where
  "splitTrainVal xs ys valRatio =
     (let numVal = Math_floor (js_mul (Fin (of_nat (length xs))) valRatio);
          numTrain = js_sub (Fin (of_nat (length xs))) numVal
      in case tf_slice xs (Fin 0) numTrain of
           Inl e \<Rightarrow> Inl e
         | Inr trainXs \<Rightarrow>
            (case tf_slice ys (Fin 0) numTrain of
               Inl e \<Rightarrow> Inl e
             | Inr trainYs \<Rightarrow>
                (case tf_slice xs numTrain numVal of
                   Inl e \<Rightarrow> Inl e
                 | Inr valXs \<Rightarrow>
                    (case tf_slice ys numTrain numVal of
                       Inl e \<Rightarrow> Inl e
                     | Inr valYs \<Rightarrow> Inr (trainXs, trainYs, valXs, valYs)))))"

subsection \<open>\<open>MNISTApp.createConfusionMatrix\<close> (\<open>app.js\<close>, lines 466-481)\<close>

text \<open>
  \<^verbatim>\<open>
    const matrix = Array(10).fill().map(() => Array(10).fill(0));
    for (let i = 0; i < predArray.length; i++) {
        const pred = predArray[i];
        const trueVal = trueArray[i];
        matrix[trueVal][pred]++;
    }
    return matrix;
  \<close>
  Both arrays come from \<open>argMax\<close> over an int32 tensor, so a label is a natural number.
  A cell of a row is a counter, or, once the code has indexed past the end of a row, the
  \<open>NaN\<close> that \<open>undefined++\<close> stores there; the slots JavaScript leaves empty between the
  old end of the row and the new cell are holes. The counters stay far below \<open>2^53\<close>
  (an array has fewer than \<open>2^32\<close> elements), so \<open>++\<close> on them is exact.
\<close>

datatype cell = Count nat | NaN_cell | Hole

fun incr_cell :: "cell \<Rightarrow> cell" where
  "incr_cell (Count n) = Count (Suc n)"
| "incr_cell NaN_cell = NaN_cell"
| "incr_cell Hole = NaN_cell"

text \<open>\<open>row[p]++\<close>: in range it increments; out of range the array is extended.\<close>

definition incr_at :: "cell list \<Rightarrow> nat \<Rightarrow> cell list" where
  "incr_at row p =
     (if p < length row then row[p := incr_cell (row ! p)]
      else row @ replicate (p - length row) Hole @ [NaN_cell])"

text \<open>
  The loop runs over \<open>predArray\<close>. Where \<open>trueArray\<close> has run out, or the true label
  is not a row of the matrix, \<open>matrix[trueVal]\<close> is \<open>undefined\<close> and indexing it throws
  a \<open>TypeError\<close>.
\<close>

fun fill_matrix :: "nat list \<Rightarrow> nat list \<Rightarrow> cell list list \<Rightarrow> js_error + cell list list" where
  "fill_matrix [] trueArray matrix = Inr matrix"
| "fill_matrix (pred # preds) [] matrix = Inl TypeError"
| "fill_matrix (pred # preds) (trueVal # trues) matrix =
     (if trueVal < length matrix
      then fill_matrix preds trues (matrix[trueVal := incr_at (matrix ! trueVal) pred])
      else Inl TypeError)"

definition createConfusionMatrix :: "nat list \<Rightarrow> nat list \<Rightarrow> js_error + cell list list" where
  "createConfusionMatrix predArray trueArray =
     fill_matrix predArray trueArray (replicate 10 (replicate 10 (Count 0)))"

text \<open>What a cell counts, and the sum of a row.\<close>

fun cell_count :: "cell \<Rightarrow> nat" where
  "cell_count (Count n) = n"
| "cell_count NaN_cell = 0"
| "cell_count Hole = 0"

fun is_Count :: "cell \<Rightarrow> bool" where
  "is_Count (Count n) = True"
| "is_Count NaN_cell = False"
| "is_Count Hole = False"

definition row_sum :: "cell list \<Rightarrow> nat" where
  "row_sum row = sum_list (map cell_count row)"

definition counts_matrix :: "cell list list \<Rightarrow> bool" where
  "counts_matrix m = (length m = 10 \<and> list_all (\<lambda>row. length row = 10 \<and> list_all is_Count row) m)"

section \<open>The stock demo: \<open>src/Week4\<close>\<close>

subsection \<open>\<open>DataLoader.pivotData\<close> (\<open>app.js\<close>, lines 341-360)\<close>

text \<open>
  \<^verbatim>\<open>
    const symbols = [...new Set(data.map(row => row.Symbol))];
    const dates = [...new Set(data.map(row => row.Date))].sort();
    const pivoted = {};
    symbols.forEach(symbol => {
        pivoted[symbol] = {};
        dates.forEach(date => {
            const row = data.find(r => r.Date === date && r.Symbol === symbol);
            if (row) {
                pivoted[symbol][date] = {
                    Open: parseFloat(row.Open),
                    Close: parseFloat(row.Close)
                };
            }
        });
    });
    return { pivoted, symbols, dates };
  \<close>
  A row of the parsed file has the four columns the function reads, each a string (a row
  of \<open>parseCSV\<close> that lacks one of them is not modelled). \<open>sort()\<close> without a comparator
  orders strings by their code units, which is the order of \<open>string\<close> here.
\<close>

record csv_row =
  row_Date :: string
  row_Symbol :: string
  row_Open :: string
  row_Close :: string

record ohlc =
  Open :: jsnum
  Close :: jsnum

definition pivot_series :: "csv_row list \<Rightarrow> string list \<Rightarrow> string \<Rightarrow> ohlc js_object" where
  "pivot_series data dates symbol =
     foldl (\<lambda>series date.
              case find (\<lambda>r. row_Date r = date \<and> row_Symbol r = symbol) data of
                None \<Rightarrow> series
              | Some row \<Rightarrow>
                  obj_set series date
                    \<lparr>Open = parseFloat (row_Open row), Close = parseFloat (row_Close row)\<rparr>)
       [] dates"

definition pivotData ::
  "csv_row list \<Rightarrow> ohlc js_object js_object \<times> string list \<times> string list" where
  "pivotData data =
     (let symbols = new_Set (map row_Symbol data);
          dates = sort (new_Set (map row_Date data));
          pivoted = foldl (\<lambda>p symbol. obj_set p symbol (pivot_series data dates symbol)) [] symbols
      in (pivoted, symbols, dates))"

subsection \<open>\<open>DataLoader.normalizeData\<close> (\<open>app.js\<close>, lines 363-390)\<close>

text \<open>
  \<^verbatim>\<open>
    Object.keys(pivotedData).forEach(symbol => {
        const values = Object.values(pivotedData[symbol]);
        const opens = values.map(v => v.Open);
        const closes = values.map(v => v.Close);
        minMax[symbol] = {
            Open: { min: Math.min(...opens), max: Math.max(...opens) },
            Close: { min: Math.min(...closes), max: Math.max(...closes) }
        };
        normalized[symbol] = {};
        Object.keys(pivotedData[symbol]).forEach(date => {
            const original = pivotedData[symbol][date];
            normalized[symbol][date] = {
                Open: (original.Open - minMax[symbol].Open.min) /
                      (minMax[symbol].Open.max - minMax[symbol].Open.min),
                Close: (original.Close - minMax[symbol].Close.min) /
                       (minMax[symbol].Close.max - minMax[symbol].Close.min)
            };
        });
    });
    return { normalized, minMax };
  \<close>
  Both result objects get the keys of \<open>pivotedData\<close> in its order, and each normalized
  series the dates of the series it is computed from.
\<close>

record min_max =
  mm_min :: jsnum
  mm_max :: jsnum

definition min_max_of :: "jsnum list \<Rightarrow> min_max" where
  "min_max_of vs = \<lparr>mm_min = Math_min vs, mm_max = Math_max vs\<rparr>"

definition scale :: "min_max \<Rightarrow> jsnum \<Rightarrow> jsnum" where
  "scale r v = js_div (js_sub v (mm_min r)) (js_sub (mm_max r) (mm_min r))"

definition normalize_series :: "ohlc js_object \<Rightarrow> ohlc js_object" where
  "normalize_series series =
     (let values = map snd series;
          opens = map Open values;
          closes = map Close values
      in map (\<lambda>(date, original).
                (date, \<lparr>Open = scale (min_max_of opens) (Open original),
                        Close = scale (min_max_of closes) (Close original)\<rparr>))
           series)"

definition normalizeData ::
  "ohlc js_object js_object \<Rightarrow> ohlc js_object js_object \<times> (min_max \<times> min_max) js_object" where
  "normalizeData pivotedData =
     (map (\<lambda>(symbol, series). (symbol, normalize_series series)) pivotedData,
      map (\<lambda>(symbol, series).
             (symbol, (min_max_of (map Open (map snd series)), min_max_of (map Close (map snd series)))))
        pivotedData)"

subsection \<open>\<open>DataLoader.prepareSamples\<close> (\<open>app.js\<close>, lines 393-454)\<close>

text \<open>
  \<^verbatim>\<open>
    const featureDates = dates.slice(0, dates.length - predictionDays);
    for (let i = sequenceLength; i < featureDates.length; i++) {
        const currentDate = featureDates[i];
        const sequenceStart = i - sequenceLength;
        const input = [];
        for (let j = sequenceStart; j < i; j++) {
            const date = featureDates[j];
            const features = [];
            symbols.forEach(symbol => {
                if (normalizedData[symbol] && normalizedData[symbol][date]) {
                    features.push(normalizedData[symbol][date].Open);
                    features.push(normalizedData[symbol][date].Close);
                } else {
                    features.push(0, 0); // Handle missing data
                }
            });
            input.push(features);
        }
        const target = [];
        const currentClosePrices = {};
        symbols.forEach(symbol => {
            if (normalizedData[symbol] && normalizedData[symbol][currentDate]) {
                currentClosePrices[symbol] = normalizedData[symbol][currentDate].Close;
            } else {
                currentClosePrices[symbol] = 0;
            }
        });
        for (let offset = 1; offset <= predictionDays; offset++) {
            const futureDateIndex = dates.indexOf(currentDate) + offset;
            if (futureDateIndex < dates.length) {
                const futureDate = dates[futureDateIndex];
                symbols.forEach(symbol => {
                    if (normalizedData[symbol] && normalizedData[symbol][futureDate]) {
                        const futureClose = normalizedData[symbol][futureDate].Close;
                        const label = futureClose > currentClosePrices[symbol] ? 1 : 0;
                        target.push(label);
                    } else {
                        target.push(0); // Handle missing data
                    }
                });
            } else {
                // Padding if we don't have enough future data
                symbols.forEach(() => target.push(0));
            }
        }
        samples.push(input);
        targets.push(target);
    }
    return { samples, targets };
  \<close>
  \<open>sequenceLength\<close> and \<open>predictionDays\<close> are counts, natural numbers. The function has
  no \<open>throw\<close> and calls nothing that throws: on every input it returns its two arrays.
\<close>

definition lookup2 :: "ohlc js_object js_object \<Rightarrow> string \<Rightarrow> string \<Rightarrow> ohlc option" where
  "lookup2 normalizedData symbol date =
     (case map_of normalizedData symbol of None \<Rightarrow> None | Some series \<Rightarrow> map_of series date)"

definition features :: "ohlc js_object js_object \<Rightarrow> string list \<Rightarrow> string \<Rightarrow> jsnum list" where
  "features normalizedData symbols date =
     concat (map (\<lambda>symbol. case lookup2 normalizedData symbol date of
                              Some r \<Rightarrow> [Open r, Close r]
                            | None \<Rightarrow> [Fin 0, Fin 0]) symbols)"

definition currentClosePrices :: "ohlc js_object js_object \<Rightarrow> string \<Rightarrow> string \<Rightarrow> jsnum" where
  "currentClosePrices normalizedData currentDate symbol =
     (case lookup2 normalizedData symbol currentDate of Some r \<Rightarrow> Close r | None \<Rightarrow> Fin 0)"

definition horizon_labels ::
  "ohlc js_object js_object \<Rightarrow> string list \<Rightarrow> string list \<Rightarrow> string \<Rightarrow> nat \<Rightarrow> nat list" where
  "horizon_labels normalizedData symbols dates currentDate offset =
     (let futureDateIndex = indexOf dates currentDate + int offset in
      if futureDateIndex < int (length dates) then
        (let futureDate = dates ! nat futureDateIndex in
         map (\<lambda>symbol. case lookup2 normalizedData symbol futureDate of
                          Some r \<Rightarrow>
                            if js_gt (Close r) (currentClosePrices normalizedData currentDate symbol)
                            then 1 else 0
                        | None \<Rightarrow> 0) symbols)
      else map (\<lambda>symbol. 0) symbols)"

definition sample_target ::
  "ohlc js_object js_object \<Rightarrow> string list \<Rightarrow> string list \<Rightarrow> string \<Rightarrow> nat \<Rightarrow> nat list" where
  "sample_target normalizedData symbols dates currentDate predictionDays =
     concat (map (horizon_labels normalizedData symbols dates currentDate) [1..<Suc predictionDays])"

definition sample_input ::
  "ohlc js_object js_object \<Rightarrow> string list \<Rightarrow> string list \<Rightarrow> nat \<Rightarrow> nat \<Rightarrow> jsnum list list" where
  "sample_input normalizedData symbols featureDates sequenceStart i =
     map (\<lambda>j. features normalizedData symbols (featureDates ! j)) [sequenceStart..<i]"

definition prepareSamples ::
  "ohlc js_object js_object \<Rightarrow> string list \<Rightarrow> string list \<Rightarrow> nat \<Rightarrow> nat
     \<Rightarrow> jsnum list list list \<times> nat list list" where
  "prepareSamples normalizedData symbols dates sequenceLength predictionDays =
     (let featureDates =
            js_slice dates (Fin 0) (Fin (of_int (int (length dates) - int predictionDays)));
          anchors = [sequenceLength..<length featureDates]
      in (map (\<lambda>i. sample_input normalizedData symbols featureDates (i - sequenceLength) i) anchors,
          map (\<lambda>i. sample_target normalizedData symbols dates (featureDates ! i) predictionDays)
            anchors))"

subsection \<open>\<open>DataLoader.splitData\<close> (\<open>app.js\<close>, lines 457-471)\<close>

text \<open>
  \<^verbatim>\<open>
    const splitIndex = Math.floor(samples.length * splitRatio);
    const X_train = samples.slice(0, splitIndex);
    const y_train = targets.slice(0, splitIndex);
    const X_test = samples.slice(splitIndex);
    const y_test = targets.slice(splitIndex);
    return {
        X_train: tf.tensor3d(X_train),
        y_train: tf.tensor2d(y_train),
        X_test: tf.tensor3d(X_test),
        y_test: tf.tensor2d(y_test)
    };
  \<close>
  \<open>samples\<close> is an array of windows, each an array of rows of numbers, and \<open>targets\<close> an
  array of rows of numbers. \<open>tf.tensor3d\<close> and \<open>tf.tensor2d\<close> belong to TensorFlow.js,
  which is not part of the repository; they are modelled by what the library does when
  it is called with one argument, a nested array of numbers. The shape is inferred by
  following the first element of each level (\<open>inferShape\<close>). An array whose inferred
  shape has one dimension, as that of the empty array has, is taken for a flat array,
  which needs an explicit shape: the call throws. It also throws for every other rank
  than the one the function builds. Otherwise the tensor has the inferred shape and
  holds the flattened values, converted to the default dtype \<open>float32\<close>; outside its
  debug mode the library does not check that the nested arrays are rectangular.

  A \<open>float32\<close> has 24 significant bits, so the spacing around a value of binary exponent
  \<open>e\<close> is \<open>2^(e - 23)\<close>, with \<open>e\<close> no smaller than \<open>-126\<close>; a value whose exponent
  reaches \<open>128\<close> after rounding becomes an infinity.
\<close>

definition fl32_pos :: "rat \<Rightarrow> rat" where
  "fl32_pos x = (let q = 2 powi (max (bexp x) (- 126) - 23) in of_int (rne (x / q)) * q)"

fun to_float32 :: "jsnum \<Rightarrow> jsnum" where
  "to_float32 (Fin x) =
     (if x = 0 then Fin 0
      else if 128 \<le> bexp (fl32_pos \<bar>x\<bar>) then (if 0 < x then PInf else NInf)
      else Fin (sgn x * fl32_pos \<bar>x\<bar>))"
| "to_float32 a = a"

record tensor =
  shape :: "nat list"
  dataSync :: "jsnum list"

definition makeTensor :: "nat list \<Rightarrow> jsnum list \<Rightarrow> tensor" where
  "makeTensor inferredShape vals = \<lparr>shape = inferredShape, dataSync = map to_float32 vals\<rparr>"

definition inferShape3 :: "jsnum list list list \<Rightarrow> nat list" where
  "inferShape3 vals =
     (case vals of
        [] \<Rightarrow> [0]
      | window # ws \<Rightarrow>
          (case window of
             [] \<Rightarrow> [length vals, 0]
           | row # rs \<Rightarrow> [length vals, length window, length row]))"

definition inferShape2 :: "jsnum list list \<Rightarrow> nat list" where
  "inferShape2 vals = (case vals of [] \<Rightarrow> [0] | row # rs \<Rightarrow> [length vals, length row])"

definition tensor3d :: "jsnum list list list \<Rightarrow> js_error + tensor" where
  "tensor3d vals =
     (let inferredShape = inferShape3 vals in
      if length inferredShape \<noteq> 3 \<and> length inferredShape \<noteq> 1
      then Inl (Error ''tensor3d() requires values to be number[][][] or flat/TypedArray'')
      else if length inferredShape = 1
      then Inl (Error ''tensor3d() requires shape to be provided when `values` are a flat array'')
      else Inr (makeTensor inferredShape (concat (concat vals))))"

definition tensor2d :: "jsnum list list \<Rightarrow> js_error + tensor" where
  "tensor2d vals =
     (let inferredShape = inferShape2 vals in
      if length inferredShape \<noteq> 2 \<and> length inferredShape \<noteq> 1
      then Inl (Error ''tensor2d() requires values to be number[][] or flat/TypedArray'')
      else if length inferredShape = 1
      then Inl (Error ''tensor2d() requires shape to be provided when `values` are a flat array'')
      else Inr (makeTensor inferredShape (concat vals)))"

definition splitIndex :: "nat \<Rightarrow> jsnum \<Rightarrow> jsnum" where
  "splitIndex len splitRatio = Math_floor (js_mul (Fin (of_nat len)) splitRatio)"

definition splitData ::
  "jsnum list list list \<Rightarrow> jsnum list list \<Rightarrow> jsnum
     \<Rightarrow> js_error + tensor \<times> tensor \<times> tensor \<times> tensor" where
  "splitData samples targets splitRatio =
     (let k = splitIndex (length samples) splitRatio;
          X_train = js_slice samples (Fin 0) k;
          y_train = js_slice targets (Fin 0) k;
          X_test = js_slice_from samples k;
          y_test = js_slice_from targets k
      in case tensor3d X_train of
           Inl e \<Rightarrow> Inl e
         | Inr X_train_t \<Rightarrow>
            (case tensor2d y_train of
               Inl e \<Rightarrow> Inl e
             | Inr y_train_t \<Rightarrow>
                (case tensor3d X_test of
                   Inl e \<Rightarrow> Inl e
                 | Inr X_test_t \<Rightarrow>
                    (case tensor2d y_test of
                       Inl e \<Rightarrow> Inl e
                     | Inr y_test_t \<Rightarrow> Inr (X_train_t, y_train_t, X_test_t, y_test_t)))))"

subsection \<open>\<open>GRUModel.calculatePerStockAccuracy\<close> (\<open>Week4 gru.js\<close>, lines 92-119)\<close>

text \<open>
  \<^verbatim>\<open>
    symbols.forEach((symbol, symbolIndex) => {
        let correct = 0;
        let total = 0;
        for (let sample = 0; sample < trueData.length; sample++) {
            for (let day = 0; day < daysAhead; day++) {
                const outputIndex = day * symbols.length + symbolIndex;
                const trueVal = trueData[sample][outputIndex];
                const predVal = predData[sample][outputIndex] > 0.5 ? 1 : 0;
                if (trueVal === predVal) {
                    correct++;
                }
                total++;
            }
        }
        stockAccuracies[symbol] = correct / total;
    });
    return stockAccuracies;
  \<close>
  \<open>trueData\<close> and \<open>predData\<close> are the nested arrays of the two tensors. A read past the
  end of a row is \<open>undefined\<close>, which is not greater than \<open>0.5\<close> and not \<open>===\<close> to a number;
  a read of a row that \<open>predData\<close> does not have throws a \<open>TypeError\<close>. The two counters
  are integers far below \<open>2^53\<close>.
\<close>

definition predVal :: "jsnum list \<Rightarrow> nat \<Rightarrow> jsnum" where
  "predVal predRow outputIndex =
     (case nth_opt predRow outputIndex of
        Some p \<Rightarrow> if js_gt p (Fin (1/2)) then Fin 1 else Fin 0
      | None \<Rightarrow> Fin 0)"

definition is_correct :: "jsnum list \<Rightarrow> jsnum list \<Rightarrow> nat \<Rightarrow> bool" where
  "is_correct trueRow predRow outputIndex =
     (case nth_opt trueRow outputIndex of
        Some trueVal \<Rightarrow> js_strict_eq trueVal (predVal predRow outputIndex)
      | None \<Rightarrow> False)"

fun days_loop ::
  "jsnum list \<Rightarrow> jsnum list option \<Rightarrow> nat \<Rightarrow> nat \<Rightarrow> nat list \<Rightarrow> nat \<times> nat \<Rightarrow> js_error + nat \<times> nat" where
  "days_loop trueRow predRow n symbolIndex [] counts = Inr counts"
| "days_loop trueRow None n symbolIndex (day # days) counts = Inl TypeError"
| "days_loop trueRow (Some p) n symbolIndex (day # days) (n_correct, n_total) =
     days_loop trueRow (Some p) n symbolIndex days
       (if is_correct trueRow p (day * n + symbolIndex) then Suc n_correct else n_correct,
        Suc n_total)"

fun samples_loop ::
  "jsnum list list \<Rightarrow> jsnum list list \<Rightarrow> nat \<Rightarrow> nat \<Rightarrow> nat \<Rightarrow> nat \<times> nat \<Rightarrow> js_error + nat \<times> nat" where
  "samples_loop [] predData n symbolIndex daysAhead counts = Inr counts"
| "samples_loop (trueRow # trueData) predData n symbolIndex daysAhead counts =
     (case days_loop trueRow (case predData of [] \<Rightarrow> None | p # ps \<Rightarrow> Some p) n symbolIndex
             [0..<daysAhead] counts of
        Inl e \<Rightarrow> Inl e
      | Inr counts' \<Rightarrow> samples_loop trueData (tl predData) n symbolIndex daysAhead counts')"

definition stock_accuracy ::
  "jsnum list list \<Rightarrow> jsnum list list \<Rightarrow> nat \<Rightarrow> nat \<Rightarrow> nat \<Rightarrow> js_error + jsnum" where
  "stock_accuracy trueData predData n daysAhead symbolIndex =
     (case samples_loop trueData predData n symbolIndex daysAhead (0, 0) of
        Inl e \<Rightarrow> Inl e
      | Inr (n_correct, n_total) \<Rightarrow> Inr (js_div (Fin (of_nat n_correct)) (Fin (of_nat n_total))))"

fun symbols_loop ::
  "jsnum list list \<Rightarrow> jsnum list list \<Rightarrow> nat \<Rightarrow> nat \<Rightarrow> (string \<times> nat) list \<Rightarrow> jsnum js_object
     \<Rightarrow> js_error + jsnum js_object" where
  "symbols_loop trueData predData n daysAhead [] stockAccuracies = Inr stockAccuracies"
| "symbols_loop trueData predData n daysAhead ((symbol, symbolIndex) # rest) stockAccuracies =
     (case stock_accuracy trueData predData n daysAhead symbolIndex of
        Inl e \<Rightarrow> Inl e
      | Inr a \<Rightarrow> symbols_loop trueData predData n daysAhead rest (obj_set stockAccuracies symbol a))"

definition calculatePerStockAccuracy ::
  "jsnum list list \<Rightarrow> jsnum list list \<Rightarrow> string list \<Rightarrow> nat \<Rightarrow> js_error + jsnum js_object" where
  "calculatePerStockAccuracy trueData predData symbols daysAhead =
     symbols_loop trueData predData (length symbols) daysAhead
       (zip symbols [0..<length symbols]) []"

section \<open>Theorems\<close>

subsection \<open>Rounding to the nearest double is monotone\<close>

lemma rne_of_int [simp]: "rne (of_int n) = n"
  by (simp add: rne_def)

lemma rne_floor: "\<lfloor>x\<rfloor> \<le> rne x" "rne x \<le> \<lfloor>x\<rfloor> + 1"
  unfolding rne_def Let_def by auto

lemma rne_mono: assumes "x \<le> y" shows "rne x \<le> rne y"
proof (cases "\<lfloor>x\<rfloor> = \<lfloor>y\<rfloor>")
  case True
  with assms show ?thesis unfolding rne_def Let_def by auto
next
  case False
  with assms have "\<lfloor>x\<rfloor> + 1 \<le> \<lfloor>y\<rfloor>" using floor_mono[OF assms] by linarith
  with rne_floor(2)[of x] rne_floor(1)[of y] show ?thesis by linarith
qed

lemma pow2_nonneg: "0 \<le> b \<Longrightarrow> (2::rat) powi b = 2 ^ nat b"
  by (simp add: power_int_def)

lemma pow2_neg: "0 \<le> b \<Longrightarrow> (2::rat) powi (- b) = inverse (2 ^ nat b)"
  by (simp only: power_int_minus pow2_nonneg)

lemma pow2_less_iff: "(2::rat) powi a < 2 powi b \<longleftrightarrow> a < b"
proof
  assume l: "(2::rat) powi a < 2 powi b"
  show "a < b"
  proof (rule ccontr)
    assume "\<not> a < b"
    then have "b \<le> a" by simp
    then have "(2::rat) powi b \<le> 2 powi a" by (intro power_int_increasing) simp_all
    with l show False by simp
  qed
next
  assume "a < b"
  then show "(2::rat) powi a < 2 powi b" by (intro power_int_strict_increasing) simp_all
qed

lemma pow2_le_iff: "(2::rat) powi a \<le> 2 powi b \<longleftrightarrow> a \<le> b"
  using pow2_less_iff[of b a] by (simp add: not_less[symmetric])

lemma bexp_ge1:
  assumes "1 \<le> x"
  shows "2 powi bexp x \<le> x" and "x < 2 powi (bexp x + 1)"
proof -
  let ?f = "\<lfloor>x\<rfloor>"
  have f: "0 < ?f" using assms by simp
  have b: "0 < bitlen ?f" using f bitlen_eq_zero_iff[of ?f] bitlen_nonneg[of ?f] by linarith
  from bitlen_bounds[OF f] have lo: "2 ^ nat (bitlen ?f - 1) \<le> ?f" and hi: "?f < 2 ^ nat (bitlen ?f)"
    by simp_all
  have e: "bexp x = bitlen ?f - 1" using assms by (simp add: bexp_def)
  have "(2::rat) powi bexp x = 2 ^ nat (bitlen ?f - 1)"
    using b by (simp add: e pow2_nonneg)
  also have "\<dots> = of_int (2 ^ nat (bitlen ?f - 1))" by simp
  also have "\<dots> \<le> of_int ?f" using lo by (simp only: of_int_le_iff)
  also have "\<dots> \<le> x" by simp
  finally show "2 powi bexp x \<le> x" .
  have "?f + 1 \<le> 2 ^ nat (bitlen ?f)" using hi by simp
  then have "(of_int (?f + 1) :: rat) \<le> of_int (2 ^ nat (bitlen ?f))" by (simp only: of_int_le_iff)
  moreover have "x < of_int (?f + 1)" by linarith
  ultimately have "x < of_int (2 ^ nat (bitlen ?f))" by linarith
  also have "\<dots> = 2 powi (bexp x + 1)" using b by (simp add: e pow2_nonneg)
  finally show "x < 2 powi (bexp x + 1)" .
qed

lemma bexp_lt1:
  assumes "0 < x" "x < 1"
  shows "2 powi bexp x \<le> x" and "x < 2 powi (bexp x + 1)"
proof -
  let ?c = "\<lceil>1 / x\<rceil>"
  let ?n = "?c - 1"
  have y: "1 < 1 / x" using assms by simp
  then have c: "2 \<le> ?c" by (simp add: le_ceiling_iff)
  then have n: "0 < ?n" by simp
  have b: "0 < bitlen ?n" using n bitlen_eq_zero_iff[of ?n] bitlen_nonneg[of ?n] by linarith
  from bitlen_bounds[OF n] have lo: "2 ^ nat (bitlen ?n - 1) \<le> ?n" and hi: "?n < 2 ^ nat (bitlen ?n)"
    by simp_all
  have e: "bexp x = - bitlen ?n" using assms by (simp add: bexp_def)
  have "?c \<le> 2 ^ nat (bitlen ?n)" using hi by simp
  then have "1 / x \<le> of_int (2 ^ nat (bitlen ?n))" by (simp only: ceiling_le_iff)
  then have "1 / x \<le> 2 ^ nat (bitlen ?n)" by simp
  then have "1 \<le> 2 ^ nat (bitlen ?n) * x" using assms(1) by (simp add: field_simps)
  then have "inverse (2 ^ nat (bitlen ?n)) \<le> x"
    by (simp add: field_simps)
  then show "2 powi bexp x \<le> x" using b by (simp only: e pow2_neg[OF bitlen_nonneg])
  have "2 ^ nat (bitlen ?n - 1) < ?c" using lo by simp
  then have "(of_int (2 ^ nat (bitlen ?n - 1)) :: rat) < 1 / x"
    by (simp only: less_ceiling_iff)
  then have "(2 ^ nat (bitlen ?n - 1) :: rat) * x < 1" using assms(1) by (simp add: field_simps)
  then have lt: "x < inverse (2 ^ nat (bitlen ?n - 1))" by (simp add: field_simps)
  have "bexp x + 1 = - (bitlen ?n - 1)" by (simp add: e)
  moreover have "0 \<le> bitlen ?n - 1" using b by simp
  ultimately have "(2::rat) powi (bexp x + 1) = inverse (2 ^ nat (bitlen ?n - 1))"
    by (simp only: pow2_neg)
  with lt show "x < 2 powi (bexp x + 1)" by simp
qed

lemma bexp_bounds:
  assumes "0 < x"
  shows "2 powi bexp x \<le> x" and "x < 2 powi (bexp x + 1)"
  using assms bexp_ge1[of x] bexp_lt1[of x] by (cases "1 \<le> x"; simp)+

lemma bexp_unique:
  assumes "2 powi e \<le> x" "x < 2 powi (e + 1)"
  shows "bexp x = e"
proof -
  have x: "0 < x" using assms(1) by (meson less_le_trans zero_less_numeral zero_less_power_int)
  have "(2::rat) powi e < 2 powi (bexp x + 1)" using assms(1) bexp_bounds(2)[OF x] by linarith
  then have 1: "e < bexp x + 1" by (simp add: pow2_less_iff)
  have "(2::rat) powi bexp x < 2 powi (e + 1)" using assms(2) bexp_bounds(1)[OF x] by linarith
  then have 2: "bexp x < e + 1" by (simp add: pow2_less_iff)
  from 1 2 show ?thesis by simp
qed

lemma bexp_mono:
  assumes "0 < x" "x \<le> y"
  shows "bexp x \<le> bexp y"
proof -
  have y: "0 < y" using assms by simp
  have "(2::rat) powi bexp x < 2 powi (bexp y + 1)"
    using bexp_bounds(1)[OF assms(1)] bexp_bounds(2)[OF y] assms(2) by linarith
  then show ?thesis by (simp add: pow2_less_iff)
qed


lemma pow2_split: "(2::rat) powi (a + b) = 2 powi a * 2 powi b"
  by (rule power_int_add) simp

lemma pow2_shift: "(2::rat) powi (e + 1) = 2 powi 53 * 2 powi (e - 52)"
  "(2::rat) powi e = 2 powi 52 * 2 powi (e - 52)"
proof -
  have "(2::rat) powi (e + 1) = 2 powi (53 + (e - 52))"
    by (rule arg_cong[where f = "\<lambda>n. 2 powi n"]) simp
  then show "(2::rat) powi (e + 1) = 2 powi 53 * 2 powi (e - 52)"
    by (simp only: pow2_split)
  have "(2::rat) powi e = 2 powi (52 + (e - 52))"
    by (rule arg_cong[where f = "\<lambda>n. 2 powi n"]) simp
  then show "(2::rat) powi e = 2 powi 52 * 2 powi (e - 52)"
    by (simp only: pow2_split)
qed

lemma fl_pos_nonneg: assumes "0 \<le> x" shows "0 \<le> fl_pos x"
proof -
  let ?q = "(2::rat) powi (max (bexp x) (- 1022) - 52)"
  have "0 \<le> x / ?q" using assms by simp
  then have "0 \<le> \<lfloor>x / ?q\<rfloor>" by simp
  with rne_floor(1)[of "x / ?q"] have "0 \<le> rne (x / ?q)" by linarith
  then show ?thesis by (simp add: fl_pos_def Let_def)
qed

lemma fl_pos_upper:
  assumes "0 < x"
  shows "fl_pos x \<le> 2 powi (max (bexp x) (- 1022) + 1)"
proof -
  let ?e = "max (bexp x) (- 1022)"
  let ?q = "(2::rat) powi (?e - 52)"
  have "x < 2 powi (bexp x + 1)" by (rule bexp_bounds(2)[OF assms])
  also have "\<dots> \<le> 2 powi (?e + 1)" by (simp add: pow2_le_iff)
  finally have "x < 2 powi (?e + 1)" .
  moreover have sh: "(2::rat) powi (?e + 1) = 2 powi 53 * ?q"
    by (rule pow2_shift(1))
  ultimately have "x / ?q < 2 powi 53" by (simp add: pos_divide_less_eq)
  then have "x / ?q \<le> of_int (2 ^ 53)" by (simp add: pow2_nonneg)
  from rne_mono[OF this] have "rne (x / ?q) \<le> 2 ^ 53" by (simp only: rne_of_int)
  then have r: "of_int (rne (x / ?q)) \<le> (2::rat) powi 53" by (simp add: pow2_nonneg)
  have "fl_pos x = of_int (rne (x / ?q)) * ?q" by (simp add: fl_pos_def Let_def)
  also have "\<dots> \<le> 2 powi 53 * ?q"
    by (rule mult_right_mono[OF r]) simp
  also have "\<dots> = (2::rat) powi (?e + 1)" by (rule sh[symmetric])
  finally show ?thesis .
qed

lemma fl_pos_lower:
  assumes "0 < x" "- 1022 \<le> bexp x"
  shows "2 powi bexp x \<le> fl_pos x"
proof -
  let ?e = "bexp x"
  let ?q = "(2::rat) powi (?e - 52)"
  have m: "max ?e (- 1022) = ?e" using assms(2) by simp
  have sh: "(2::rat) powi ?e = 2 powi 52 * ?q" by (rule pow2_shift(2))
  moreover have "2 powi ?e \<le> x" by (rule bexp_bounds(1)[OF assms(1)])
  ultimately have "2 powi 52 \<le> x / ?q" by (simp add: pos_le_divide_eq)
  then have "of_int (2 ^ 52) \<le> x / ?q" by (simp add: pow2_nonneg)
  from rne_mono[OF this] have "2 ^ 52 \<le> rne (x / ?q)" by (simp only: rne_of_int)
  then have r: "(2::rat) powi 52 \<le> of_int (rne (x / ?q))" by (simp add: pow2_nonneg)
  note sh
  also have "2 powi 52 * ?q \<le> of_int (rne (x / ?q)) * ?q"
    by (rule mult_right_mono[OF r]) simp
  also have "\<dots> = fl_pos x" by (simp add: fl_pos_def Let_def m)
  finally show ?thesis .
qed

lemma fl_pos_mono:
  assumes "0 < x" "x \<le> y"
  shows "fl_pos x \<le> fl_pos y"
proof -
  let ?ex = "max (bexp x) (- 1022)" and ?ey = "max (bexp y) (- 1022)"
  have y: "0 < y" using assms by simp
  have le: "?ex \<le> ?ey" using bexp_mono[OF assms] by simp
  show ?thesis
  proof (cases "?ex = ?ey")
    case True
    let ?q = "(2::rat) powi (?ex - 52)"
    have "x / ?q \<le> y / ?q" using assms(2) by (simp add: divide_right_mono)
    from rne_mono[OF this] have "(of_int (rne (x / ?q)) :: rat) \<le> of_int (rne (y / ?q))"
      by (simp only: of_int_le_iff)
    then have "of_int (rne (x / ?q)) * ?q \<le> of_int (rne (y / ?q)) * ?q"
      by (simp add: mult_right_mono)
    then show ?thesis using True by (simp add: fl_pos_def Let_def)
  next
    case False
    from le_neq_trans[OF le False] have lt: "?ex < ?ey" .
    have "- 1022 \<le> ?ex" by simp
    with lt have "- 1022 < ?ey" by linarith
    then have ey: "?ey = bexp y" "- 1022 \<le> bexp y" by (simp_all add: max_def split: if_splits)
    have "fl_pos x \<le> 2 powi (?ex + 1)" by (rule fl_pos_upper[OF assms(1)])
    also have "\<dots> \<le> 2 powi bexp y"
    proof -
      have "?ex + 1 \<le> bexp y" using lt ey(1) by linarith
      then show ?thesis by (simp only: pow2_le_iff)
    qed
    also have "\<dots> \<le> fl_pos y" by (rule fl_pos_lower[OF y ey(2)])
    finally show ?thesis .
  qed
qed

lemma bexp_zero: "bexp 0 = 0"
  by (simp add: bexp_def bitlen_eq_zero_iff)

lemma overflow_mono:
  assumes "0 < x" "x \<le> y" "1024 \<le> bexp (fl_pos x)"
  shows "1024 \<le> bexp (fl_pos y)"
proof -
  have "fl_pos x \<noteq> 0" using assms(3) bexp_zero by auto
  with fl_pos_nonneg[of x] assms(1) have "0 < fl_pos x" by simp
  from bexp_mono[OF this fl_pos_mono[OF assms(1,2)]] assms(3) show ?thesis by simp
qed

lemma js_round_zero [simp]: "js_round 0 = Fin 0"
  by (simp add: js_round_def)

lemma js_round_pos:
  assumes "0 < x"
  shows "js_round x = PInf \<and> 1024 \<le> bexp (fl_pos x) \<or> (\<exists>r. js_round x = Fin r \<and> 0 \<le> r \<and> r = fl_pos x \<and> \<not> 1024 \<le> bexp (fl_pos x))"
  using assms fl_pos_nonneg[of x] by (auto simp: js_round_def)

lemma js_round_neg:
  assumes "x < 0"
  shows "js_round x = NInf \<and> 1024 \<le> bexp (fl_pos (- x)) \<or> (\<exists>r. js_round x = Fin r \<and> r \<le> 0 \<and> r = - fl_pos (- x) \<and> \<not> 1024 \<le> bexp (fl_pos (- x)))"
  using assms fl_pos_nonneg[of "- x"] by (auto simp: js_round_def)

lemma js_round_mono:
  assumes "x \<le> y"
  shows "\<not> js_lt (js_round y) (js_round x)"
proof -
  consider "x < 0" "y < 0" | "x < 0" "y = 0" | "x < 0" "0 < y" | "x = 0" "y = 0"
    | "x = 0" "0 < y" | "0 < x" "0 < y"
    using assms by linarith
  then show ?thesis
  proof cases
    case 1
    have a: "0 < - y" "- y \<le> - x" using 1 assms by simp_all
    from fl_pos_mono[OF a] overflow_mono[OF a] js_round_neg[OF 1(1)] js_round_neg[OF 1(2)]
    show ?thesis by auto
  next
    case 2
    with js_round_neg[OF 2(1)] show ?thesis by auto
  next
    case 3
    from js_round_pos[OF 3(2)] js_round_neg[OF 3(1)] show ?thesis by auto
  next
    case 4
    then show ?thesis by simp
  next
    case 5
    from js_round_pos[OF 5(2)] 5(1) show ?thesis by auto
  next
    case 6
    from fl_pos_mono[OF 6(1) assms] overflow_mono[OF 6(1) assms] js_round_pos[OF 6(1)]
      js_round_pos[OF 6(2)]
    show ?thesis by auto
  qed
qed

lemma js_round_lt_imp:
  "js_lt (js_round x) (js_round y) \<Longrightarrow> x < y"
  using js_round_mono[of y x] by (cases "x < y") auto



subsection \<open>Confusion matrix\<close>

lemma row_sum_incr_at:
  assumes "p < length row" "list_all is_Count row"
  shows "row_sum (incr_at row p) = Suc (row_sum row)"
    and "list_all is_Count (incr_at row p)"
    and "length (incr_at row p) = length row"
proof -
  from assms obtain n where n: "row ! p = Count n"
    by (cases "row ! p") (auto simp: list_all_length)
  have "sum_list ((map cell_count row)[p := Suc n]) = Suc (sum_list (map cell_count row))"
    using assms(1) n by (simp add: sum_list_update)
  then show "row_sum (incr_at row p) = Suc (row_sum row)"
    using assms(1) n by (simp add: row_sum_def incr_at_def map_update)
  show "list_all is_Count (incr_at row p)"
    using assms n by (auto simp: incr_at_def list_all_length nth_list_update)
  show "length (incr_at row p) = length row"
    using assms(1) by (simp add: incr_at_def)
qed

lemma fill_matrix_sums:
  assumes "length preds = length trues"
    and "list_all (\<lambda>p. p < 10) preds" and "list_all (\<lambda>t. t < 10) trues"
    and "counts_matrix m"
  shows "\<exists>m'. fill_matrix preds trues m = Inr m' \<and> counts_matrix m' \<and>
           map row_sum m' = map (\<lambda>i. row_sum (m ! i) + count_list trues i) [0..<10]"
  using assms
proof (induction preds trues m rule: fill_matrix.induct)
  case (1 trueArray matrix)
  then have "map row_sum matrix = map (\<lambda>i. row_sum (matrix ! i)) [0..<10]"
    by (auto simp: counts_matrix_def intro!: nth_equalityI)
  with 1 show ?case by simp
next
  case (2 pred preds matrix)
  then show ?case by simp
next
  case (3 pred preds trueVal trues matrix)
  let ?m = "matrix[trueVal := incr_at (matrix ! trueVal) pred]"
  from 3 have t: "trueVal < 10" and p: "pred < 10" and len: "length matrix = 10"
    by (auto simp: counts_matrix_def)
  from 3 t have row: "length (matrix ! trueVal) = 10" "list_all is_Count (matrix ! trueVal)"
    by (auto simp: counts_matrix_def list_all_length)
  have cm: "counts_matrix ?m"
    using 3(5) row p t row_sum_incr_at(2,3)[of pred "matrix ! trueVal"]
    by (auto simp: counts_matrix_def list_all_length nth_list_update)
  from 3 t len cm obtain m' where m': "fill_matrix preds trues ?m = Inr m'"
      "counts_matrix m'"
      "map row_sum m' = map (\<lambda>i. row_sum (?m ! i) + count_list trues i) [0..<10]"
    by auto
  have "row_sum (?m ! i) + count_list trues i
          = row_sum (matrix ! i) + count_list (trueVal # trues) i" if "i < 10" for i
    using that len row p row_sum_incr_at(1)[of pred "matrix ! trueVal"]
    by (auto simp: nth_list_update)
  then have "map (\<lambda>i. row_sum (?m ! i) + count_list trues i) [0..<10]
      = map (\<lambda>i. row_sum (matrix ! i) + count_list (trueVal # trues) i) [0..<10]"
    by simp
  with m' t len show ?case by simp
qed

text \<open>
  Claim C7. For aligned predicted and true label arrays of length \<open>N\<close> whose labels are
  classes \<open>0..9\<close>, the matrix is returned, every cell of its ten rows of ten is a counter,
  the sum of row \<open>i\<close> is the number of examples whose true class is \<open>i\<close>, and all the
  entries together sum to \<open>N\<close>.
\<close>

theorem createConfusionMatrix_row_sums:
  assumes "length predArray = length trueArray"
    and "list_all (\<lambda>p. p < 10) predArray" and "list_all (\<lambda>t. t < 10) trueArray"
  shows "\<exists>m. createConfusionMatrix predArray trueArray = Inr m \<and> counts_matrix m \<and>
           map row_sum m = map (count_list trueArray) [0..<10] \<and>
           sum_list (map row_sum m) = length trueArray"
proof -
  have init: "counts_matrix (replicate 10 (replicate 10 (Count 0)))"
    by (simp add: counts_matrix_def list_all_length)
  have zero: "row_sum (replicate 10 (replicate 10 (Count 0)) ! i) = 0" if "i < 10" for i
    using that by (simp add: row_sum_def)
  from fill_matrix_sums[OF assms init] obtain m where
    m: "createConfusionMatrix predArray trueArray = Inr m" "counts_matrix m"
       "map row_sum m = map (\<lambda>i. row_sum (replicate 10 (replicate 10 (Count 0)) ! i)
                                  + count_list trueArray i) [0..<10]"
    by (auto simp: createConfusionMatrix_def)
  have rows: "map row_sum m = map (count_list trueArray) [0..<10]"
    unfolding m(3) using zero by simp
  have "sum_list (map (count_list trueArray) [0..<10]) = length trueArray"
    using assms(3)
  proof (induction trueArray)
    case Nil
    show ?case by simp
  next
    case (Cons t ts)
    then have t: "t < 10" and ts: "list_all (\<lambda>t. t < 10) ts" by simp_all
    have "sum_list (map (count_list (t # ts)) [0..<10])
        = sum_list (map (\<lambda>i. count_list ts i + (if i = t then 1 else 0)) [0..<10])"
      by (intro arg_cong[where f = sum_list] map_cong) auto
    also have "\<dots> = sum_list (map (count_list ts) [0..<10])
                    + sum_list (map (\<lambda>i. if i = t then 1 else 0) [0..<10])"
      by (simp add: sum_list_addf)
    also have "sum_list (map (\<lambda>i. if i = t then 1 else 0) [0..<10]) = (1::nat)"
      using t by (simp add: interv_sum_list_conv_sum_set_nat)
    finally show ?case using Cons.IH[OF ts] by simp
  qed
  with m rows show ?thesis by simp
qed

theorem createConfusionMatrix_row_sums_witness:
  "\<exists>m. createConfusionMatrix [1, 2, 1] [1, 2, 2] = Inr m \<and> counts_matrix m \<and>
     map row_sum m = [0, 1, 2, 0, 0, 0, 0, 0, 0, 0] \<and> sum_list (map row_sum m) = 3"
  using createConfusionMatrix_row_sums[of "[1, 2, 1]" "[1, 2, 2]"]
  by (simp add: upt_rec eval_nat_numeral)

subsection \<open>Window and label builder: the number of windows\<close>

lemma rel_index_of_int:
  "rel_index (Fin (of_int k)) len = (if k < 0 then nat (max (int len + k) 0) else min (nat k) len)"
  by (simp add: Let_def)

lemma rel_index_zero [simp]: "rel_index (Fin 0) len = 0"
  by simp

lemma js_slice_dates:
  "js_slice dates (Fin 0) (Fin (of_int (int (length dates) - int h))) =
     take (if h \<le> length dates then length dates - h else 2 * length dates - h) dates"
proof -
  have "rel_index (Fin (of_int (int (length dates) - int h))) (length dates) =
          (if h \<le> length dates then length dates - h else 2 * length dates - h)"
    unfolding rel_index_of_int by (auto simp: min_def max_def nat_diff_distrib)
  then show ?thesis
    unfolding js_slice_def Let_def rel_index_zero by simp
qed

lemma length_js_slice_dates:
  "length (js_slice dates (Fin 0) (Fin (of_int (int (length dates) - int h)))) =
     (if h \<le> length dates then length dates - h else 2 * length dates - h)"
  unfolding js_slice_dates by auto

lemma js_slice_dates_take:
  "h \<le> length dates \<Longrightarrow>
     js_slice dates (Fin 0) (Fin (of_int (int (length dates) - int h))) = take (length dates - h) dates"
  unfolding js_slice_dates by simp

lemma prepareSamples_lengths:
  "length (fst (prepareSamples nd symbols dates t h)) =
     (if h \<le> length dates then length dates - h - t else 2 * length dates - h - t)"
  "length (snd (prepareSamples nd symbols dates t h)) =
     (if h \<le> length dates then length dates - h - t else 2 * length dates - h - t)"
  unfolding prepareSamples_def Let_def js_slice_dates by auto

text \<open>
  With no more horizons than dates the builder yields exactly \<open>max(0, D - T - H)\<close> samples
  and as many targets, one per anchor index in \<open>[T, D - H)\<close>.
\<close>

lemma prepareSamples_window_count:
  assumes "h \<le> length dates"
  shows "length (fst (prepareSamples nd symbols dates t h)) = length dates - t - h"
    and "length (snd (prepareSamples nd symbols dates t h)) = length dates - t - h"
  using assms by (simp_all add: prepareSamples_lengths)

text \<open>
  Claim C4. The builder yields \<open>D - T - H\<close> samples when that is positive and none
  otherwise. The code does so whenever \<open>H \<le> D\<close> (\<open>prepareSamples_window_count\<close>). With
  more horizons than dates the bound \<open>dates.length - predictionDays\<close> of \<open>slice\<close> is
  negative and counts from the end of the array: for five dates, \<open>T = 1\<close> and \<open>H = 7\<close>
  the feature dates are the first three dates and the builder returns two samples, where
  \<open>D - T - H = -3\<close>.
\<close>

theorem prepareSamples_negative_slice:
  "length (fst (prepareSamples normalizedData symbols
       [''2024-01-01'', ''2024-01-02'', ''2024-01-03'', ''2024-01-04'', ''2024-01-05''] 1 7)) = 2"
  by (simp add: prepareSamples_lengths)

text \<open>
  Claim C3, as amended. The builder has no failure: with too few dates for one window
  (\<open>D - T - H \<le> 0\<close>, and no more horizons than dates) it returns the empty dataset.
\<close>

theorem prepareSamples_empty:
  assumes "h \<le> length dates" "length dates \<le> t + h"
  shows "prepareSamples nd symbols dates t h = ([], [])"
  using assms unfolding prepareSamples_def Let_def js_slice_dates by simp

theorem prepareSamples_empty_witness:
  "(1::nat) \<le> length [''2024-01-01'', ''2024-01-02''] \<and>
   length [''2024-01-01'', ''2024-01-02''] \<le> (12::nat) + 1 \<and>
   prepareSamples [] [''AAPL''] [''2024-01-01'', ''2024-01-02''] 12 1 = ([], [])"
  using prepareSamples_empty[of 1 "[''2024-01-01'', ''2024-01-02'']" 12 "[]" "[''AAPL'']"]
  by simp

text \<open>
  Claim C3 as stated fails: three dates with \<open>T = 2\<close> and \<open>H = 1\<close> give
  \<open>D - T - H = 0\<close>, and the builder returns an empty dataset instead of failing.
\<close>

theorem prepareSamples_returns_empty_dataset:
  "prepareSamples [] [''AAPL''] [''2024-01-01'', ''2024-01-02'', ''2024-01-03''] 2 1 = ([], [])"
  by (simp add: prepareSamples_def Let_def js_slice_def)

subsection \<open>Dataset splitter\<close>

lemma js_round_not_NaN [simp]: "js_round x \<noteq> NaN"
  by (simp add: js_round_def)

lemma bexp_nat_range:
  assumes "0 < n" "n < 2 ^ 53"
  shows "0 \<le> bexp (of_nat n)" "bexp (of_nat n) \<le> 52"
proof -
  let ?x = "of_nat n :: rat"
  have x: "0 < ?x" using assms(1) by simp
  have "(2::rat) powi 0 \<le> ?x" using assms(1) by simp
  also have "?x < 2 powi (bexp ?x + 1)" by (rule bexp_bounds(2)[OF x])
  finally have "0 < bexp ?x + 1" by (simp only: pow2_less_iff)
  then show "0 \<le> bexp ?x" by simp
  have "2 powi bexp ?x \<le> ?x" by (rule bexp_bounds(1)[OF x])
  also have "?x < of_nat (2 ^ 53)" using assms(2) by (simp only: of_nat_less_iff)
  also have "(of_nat (2 ^ 53) :: rat) = 2 powi 53" by (simp add: pow2_nonneg)
  finally have "bexp ?x < 53" by (simp only: pow2_less_iff)
  then show "bexp ?x \<le> 52" by simp
qed

lemma fl_pos_nat:
  assumes "0 < n" "n < 2 ^ 53"
  shows "fl_pos (of_nat n) = of_nat n"
proof -
  let ?x = "of_nat n :: rat"
  let ?e = "bexp ?x"
  note r = bexp_nat_range[OF assms]
  have m: "max ?e (- 1022) = ?e" using r(1) by simp
  have q: "(2::rat) powi (?e - 52) = inverse (2 ^ nat (52 - ?e))"
    using pow2_neg[of "52 - ?e"] r(2) by simp
  have "?x / 2 powi (?e - 52) = of_int (int n * 2 ^ nat (52 - ?e))"
    by (simp add: q divide_inverse)
  then have "rne (?x / 2 powi (?e - 52)) = int n * 2 ^ nat (52 - ?e)"
    by (simp only: rne_of_int)
  then show ?thesis
    by (simp add: fl_pos_def Let_def m) (simp add: q)
qed

lemma js_round_nat:
  assumes "n < 2 ^ 53"
  shows "js_round (of_nat n) = Fin (of_nat n)"
proof (cases "n = 0")
  case True
  then show ?thesis by simp
next
  case False
  then have n: "0 < n" by simp
  have "bexp (of_nat n) \<le> 52" by (rule bexp_nat_range(2)[OF n assms])
  then show ?thesis using n by (simp add: js_round_def fl_pos_nat[OF n assms])
qed

lemma js_round_scaled:
  assumes "0 \<le> r" "r \<le> 1" "n < 2 ^ 53"
  shows "\<exists>p. js_round (of_nat n * r) = Fin p \<and> 0 \<le> p \<and> p \<le> of_nat n"
proof -
  have "of_nat n * r \<le> of_nat n" using assms(1,2) by (simp add: mult_left_le)
  from js_round_mono[OF this] have hi: "\<not> js_lt (Fin (of_nat n)) (js_round (of_nat n * r))"
    by (simp add: js_round_nat[OF assms(3)])
  have "0 \<le> of_nat n * r" using assms(1) by simp
  from js_round_mono[OF this] have lo: "\<not> js_lt (js_round (of_nat n * r)) (Fin 0)"
    by simp
  from hi lo show ?thesis by (cases "js_round (of_nat n * r)") auto
qed

lemma rel_index_nat: "rel_index (Fin (of_nat k)) len = min k len"
  using rel_index_of_int[of "int k" len] by simp

lemma split_index_nat:
  assumes "0 \<le> r" "r \<le> 1" "n < 2 ^ 53"
  shows "\<exists>p. js_mul (Fin (of_nat n)) (Fin r) = Fin p \<and> 0 \<le> p \<and> nat \<lfloor>p\<rfloor> \<le> n \<and>
             splitIndex n (Fin r) = Fin (of_nat (nat \<lfloor>p\<rfloor>))"
proof -
  from js_round_scaled[OF assms] obtain p where
    p: "js_round (of_nat n * r) = Fin p" "0 \<le> p" "p \<le> of_nat n" by blast
  have "\<lfloor>p\<rfloor> \<le> int n" using p(3) by (simp add: floor_le_iff)
  then have k: "nat \<lfloor>p\<rfloor> \<le> n" by simp
  have "0 \<le> \<lfloor>p\<rfloor>" using p(2) by simp
  then have "(of_int \<lfloor>p\<rfloor> :: rat) = of_nat (nat \<lfloor>p\<rfloor>)" by simp
  with p k show ?thesis by (simp add: splitIndex_def)
qed

lemma as_int_nat [simp]: "as_int (Fin (of_nat k)) = Some (int k)"
  by simp

lemma tf_slice_nat:
  "b + k \<le> length t \<Longrightarrow> tf_slice t (Fin (of_nat b)) (Fin (of_nat k)) = Inr (take k (drop b t))"
  by (simp add: tf_slice_def del: as_int.simps)

lemma tensor3d_Nil:
  "tensor3d [] =
     Inl (Error ''tensor3d() requires shape to be provided when `values` are a flat array'')"
  by (simp add: tensor3d_def inferShape3_def)

lemma tensor3d_windows:
  assumes "vals \<noteq> []" "hd vals \<noteq> []"
  shows "tensor3d vals =
     Inr (makeTensor [length vals, length (hd vals), length (hd (hd vals))] (concat (concat vals)))"
proof -
  from assms obtain row rs ws where "vals = (row # rs) # ws"
    by (cases vals; cases "hd vals") auto
  then show ?thesis by (simp add: tensor3d_def inferShape3_def)
qed

lemma tensor2d_rows:
  assumes "vals \<noteq> []"
  shows "tensor2d vals = Inr (makeTensor [length vals, length (hd vals)] (concat vals))"
proof -
  from assms obtain row rs where "vals = row # rs" by (cases vals) auto
  then show ?thesis by (simp add: tensor2d_def inferShape2_def)
qed

lemma splitData_cut:
  assumes "k \<le> length samples" "length targets = length samples"
    "splitIndex (length samples) splitRatio = Fin (of_nat k)"
  shows "splitData samples targets splitRatio =
     (case tensor3d (take k samples) of
        Inl e \<Rightarrow> Inl e
      | Inr X_train_t \<Rightarrow>
         (case tensor2d (take k targets) of
            Inl e \<Rightarrow> Inl e
          | Inr y_train_t \<Rightarrow>
             (case tensor3d (drop k samples) of
                Inl e \<Rightarrow> Inl e
              | Inr X_test_t \<Rightarrow>
                 (case tensor2d (drop k targets) of
                    Inl e \<Rightarrow> Inl e
                  | Inr y_test_t \<Rightarrow> Inr (X_train_t, y_train_t, X_test_t, y_test_t)))))"
proof -
  have s: "js_slice samples (Fin 0) (Fin (of_nat k)) = take k samples"
    "js_slice targets (Fin 0) (Fin (of_nat k)) = take k targets"
    "js_slice_from samples (Fin (of_nat k)) = drop k samples"
    "js_slice_from targets (Fin (of_nat k)) = drop k targets"
    using assms(1,2)
    by (simp_all add: js_slice_def js_slice_from_def rel_index_nat del: rel_index.simps)
  show ?thesis unfolding splitData_def Let_def assms(3) s ..
qed

lemma splitData_tensors:
  assumes "0 < k" "k < length samples" "length targets = length samples" "[] \<notin> set samples"
    "splitIndex (length samples) splitRatio = Fin (of_nat k)"
  shows "splitData samples targets splitRatio =
     Inr (makeTensor [k, length (hd samples), length (hd (hd samples))]
            (concat (concat (take k samples))),
          makeTensor [k, length (hd targets)] (concat (take k targets)),
          makeTensor [length samples - k, length (samples ! k), length (hd (samples ! k))]
            (concat (concat (drop k samples))),
          makeTensor [length samples - k, length (targets ! k)] (concat (drop k targets)))"
proof -
  have ne: "samples \<noteq> []" "targets \<noteq> []" using assms(2,3) by auto
  have w: "hd samples \<noteq> []" "samples ! k \<noteq> []"
    using assms(4) hd_in_set[OF ne(1)] nth_mem[OF assms(2)] by metis+
  have a: "tensor3d (take k samples) =
      Inr (makeTensor [k, length (hd samples), length (hd (hd samples))]
             (concat (concat (take k samples))))"
    using tensor3d_windows[of "take k samples"] assms(1,2) ne(1) w(1) by (simp add: min_def)
  have b: "tensor2d (take k targets) =
      Inr (makeTensor [k, length (hd targets)] (concat (take k targets)))"
    using tensor2d_rows[of "take k targets"] assms(1,2,3) ne(2) by (simp add: min_def)
  have c: "tensor3d (drop k samples) =
      Inr (makeTensor [length samples - k, length (samples ! k), length (hd (samples ! k))]
             (concat (concat (drop k samples))))"
    using tensor3d_windows[of "drop k samples"] assms(2) w(2) by (simp add: hd_drop_conv_nth)
  have d: "tensor2d (drop k targets) =
      Inr (makeTensor [length samples - k, length (targets ! k)] (concat (drop k targets)))"
    using tensor2d_rows[of "drop k targets"] assms(2,3) by (simp add: hd_drop_conv_nth)
  from assms(2) have "k \<le> length samples" by simp
  from splitData_cut[OF this assms(3,5)] show ?thesis by (simp add: a b c d)
qed

lemma splitData_throws:
  assumes "k = 0 \<or> k = length samples" "length targets = length samples" "[] \<notin> set samples"
    "splitIndex (length samples) splitRatio = Fin (of_nat k)"
  shows "splitData samples targets splitRatio =
     Inl (Error ''tensor3d() requires shape to be provided when `values` are a flat array'')"
proof (cases "k = 0")
  case True
  from splitData_cut[OF _ assms(2,4)] True show ?thesis by (simp add: tensor3d_Nil)
next
  case False
  with assms(1) have k: "k = length samples" "samples \<noteq> []" "targets \<noteq> []"
    using assms(2) by auto
  have w: "hd samples \<noteq> []" using assms(3) hd_in_set[OF k(2)] by auto
  from splitData_cut[OF _ assms(2,4)] k show ?thesis
    by (simp add: tensor3d_Nil tensor3d_windows[OF k(2) w] tensor2d_rows[OF k(3)] assms(2))
qed

text \<open>
  Claim C8, as amended. For a split fraction \<open>r\<close> in \<open>(0,1)\<close> and \<open>N\<close> aligned pairs,
  each sample a window of at least one row, let \<open>p\<close> be the double the product \<open>N * r\<close>
  rounds to and \<open>k = floor p\<close>; then \<open>k \<le> N\<close>. If \<open>0 < k < N\<close>, \<open>splitData\<close> returns
  four tensors: the train tensors hold the first \<open>k\<close> samples and the first \<open>k\<close>
  targets, the test tensors the remaining \<open>N - k\<close> samples and targets, in the original
  order, their values converted to \<open>float32\<close>. If \<open>k = 0\<close> or \<open>k = N\<close>, one of the two
  parts is empty and \<open>splitData\<close> throws the error of \<open>tf.tensor3d\<close> for an array without
  a shape. \<open>splitTrainVal\<close>, whose fraction is that of the validation set, returns the
  first \<open>N - k\<close> pairs as the train set and the last \<open>k\<close> as the validation set. Both
  keep the order of the pairs: the train set followed by the other set is the original
  sequence.
\<close>

theorem split_contiguous:
  assumes "0 < r" "r < 1" "length samples < 2 ^ 32" "length targets = length samples"
    "[] \<notin> set samples"
  shows "\<exists>p k. js_mul (Fin (of_nat (length samples))) (Fin r) = Fin p \<and> k = nat \<lfloor>p\<rfloor> \<and>
           k \<le> length samples \<and>
           splitData samples targets (Fin r) =
             (if 0 < k \<and> k < length samples
              then Inr (makeTensor [k, length (hd samples), length (hd (hd samples))]
                          (concat (concat (take k samples))),
                        makeTensor [k, length (hd targets)] (concat (take k targets)),
                        makeTensor [length samples - k, length (samples ! k),
                                    length (hd (samples ! k))]
                          (concat (concat (drop k samples))),
                        makeTensor [length samples - k, length (targets ! k)]
                          (concat (drop k targets)))
              else Inl (Error
                ''tensor3d() requires shape to be provided when `values` are a flat array'')) \<and>
           splitTrainVal samples targets (Fin r) =
             Inr (take (length samples - k) samples, take (length samples - k) targets,
                  drop (length samples - k) samples, drop (length samples - k) targets)"
proof -
  let ?n = "length samples"
  have n: "?n < 2 ^ 53" using assms(3) by simp
  from split_index_nat[OF _ _ n, of r] assms(1,2) obtain p where
    p: "js_mul (Fin (of_nat ?n)) (Fin r) = Fin p" "nat \<lfloor>p\<rfloor> \<le> ?n"
       "splitIndex ?n (Fin r) = Fin (of_nat (nat \<lfloor>p\<rfloor>))" by auto
  let ?k = "nat \<lfloor>p\<rfloor>"
  have sd: "splitData samples targets (Fin r) =
      (if 0 < ?k \<and> ?k < ?n
       then Inr (makeTensor [?k, length (hd samples), length (hd (hd samples))]
                   (concat (concat (take ?k samples))),
                 makeTensor [?k, length (hd targets)] (concat (take ?k targets)),
                 makeTensor [?n - ?k, length (samples ! ?k), length (hd (samples ! ?k))]
                   (concat (concat (drop ?k samples))),
                 makeTensor [?n - ?k, length (targets ! ?k)] (concat (drop ?k targets)))
       else Inl (Error
         ''tensor3d() requires shape to be provided when `values` are a flat array''))"
  proof (cases "0 < ?k \<and> ?k < ?n")
    case True
    then show ?thesis
      using splitData_tensors[OF _ _ assms(4,5) p(3)] by (simp only: if_True) simp
  next
    case False
    with p(2) have "?k = 0 \<or> ?k = ?n" by linarith
    from splitData_throws[OF this assms(4,5) p(3)] False show ?thesis by (simp only: if_False)
  qed
  have nv: "Math_floor (js_mul (Fin (of_nat ?n)) (Fin r)) = Fin (of_nat ?k)"
    using p(3) by (simp add: splitIndex_def)
  have "?n - ?k < 2 ^ 53" using n by simp
  from js_round_nat[OF this] have nt: "js_sub (Fin (of_nat ?n)) (Fin (of_nat ?k)) = Fin (of_nat (?n - ?k))"
    using p(2) by simp
  have z: "(Fin 0 :: jsnum) = Fin (of_nat 0)" by simp
  have a: "tf_slice samples (Fin 0) (Fin (of_nat (?n - ?k))) = Inr (take (?n - ?k) samples)"
    unfolding z using tf_slice_nat[of 0 "?n - ?k" samples] by simp
  have b: "tf_slice targets (Fin 0) (Fin (of_nat (?n - ?k))) = Inr (take (?n - ?k) targets)"
    unfolding z using tf_slice_nat[of 0 "?n - ?k" targets] assms(4) by simp
  have c: "tf_slice samples (Fin (of_nat (?n - ?k))) (Fin (of_nat ?k)) = Inr (drop (?n - ?k) samples)"
    using tf_slice_nat[of "?n - ?k" ?k samples] p(2) by simp
  have d: "tf_slice targets (Fin (of_nat (?n - ?k))) (Fin (of_nat ?k)) = Inr (drop (?n - ?k) targets)"
    using tf_slice_nat[of "?n - ?k" ?k targets] p(2) assms(4) by simp
  have stv: "splitTrainVal samples targets (Fin r) =
      Inr (take (?n - ?k) samples, take (?n - ?k) targets,
           drop (?n - ?k) samples, drop (?n - ?k) targets)"
    unfolding splitTrainVal_def Let_def nv nt a b c d by simp
  from p(1,2) sd stv show ?thesis by blast
qed

theorem split_contiguous_witness:
  "(0::rat) < 1/2 \<and> (1/2::rat) < 1 \<and>
   splitData [[[Fin 0, Fin (1/2)]], [[Fin (1/2), Fin (1073741825/1073741824)]], [[Fin 1, Fin (1/4)]]]
       [[Fin 1], [Fin 0], [Fin 1]] (Fin (1/2)) =
     Inr (\<lparr>shape = [1, 1, 2], dataSync = [Fin 0, Fin (1/2)]\<rparr>,
          \<lparr>shape = [1, 1], dataSync = [Fin 1]\<rparr>,
          \<lparr>shape = [2, 1, 2], dataSync = [Fin (1/2), Fin 1, Fin 1, Fin (1/4)]\<rparr>,
          \<lparr>shape = [2, 1], dataSync = [Fin 0, Fin 1]\<rparr>) \<and>
   splitTrainVal [[[Fin 0, Fin (1/2)]], [[Fin (1/2), Fin (1073741825/1073741824)]], [[Fin 1, Fin (1/4)]]]
       [[Fin 1], [Fin 0], [Fin 1]] (Fin (1/2)) =
     Inr ([[[Fin 0, Fin (1/2)]], [[Fin (1/2), Fin (1073741825/1073741824)]]], [[Fin 1], [Fin 0]],
          [[[Fin 1, Fin (1/4)]]], [[Fin 1]])"
proof -
  define samples where
    "samples = [[[Fin 0, Fin (1/2)]], [[Fin (1/2), Fin (1073741825/1073741824)]], [[Fin 1, Fin (1/4)]]]"
  define targets where "targets = [[Fin 1], [Fin 0], [Fin 1]]"
  have l: "length samples = 3" "length targets = length samples" "[] \<notin> set samples"
    "length samples < 2 ^ 32"
    by (simp_all add: samples_def targets_def)
  have m: "js_mul (Fin (of_nat (length samples))) (Fin (1/2)) = Fin (3/2)"
    unfolding l(1) by code_simp
  have f: "nat \<lfloor>3/2 :: rat\<rfloor> = 1" by code_simp
  from split_contiguous[of "1/2" samples targets, OF _ _ l(4) l(2) l(3)]
  obtain p k where pk: "js_mul (Fin (of_nat (length samples))) (Fin (1/2)) = Fin p"
      "k = nat \<lfloor>p\<rfloor>"
      "splitData samples targets (Fin (1/2)) =
             (if 0 < k \<and> k < length samples
              then Inr (makeTensor [k, length (hd samples), length (hd (hd samples))]
                          (concat (concat (take k samples))),
                        makeTensor [k, length (hd targets)] (concat (take k targets)),
                        makeTensor [length samples - k, length (samples ! k),
                                    length (hd (samples ! k))]
                          (concat (concat (drop k samples))),
                        makeTensor [length samples - k, length (targets ! k)]
                          (concat (drop k targets)))
              else Inl (Error
                ''tensor3d() requires shape to be provided when `values` are a flat array''))"
      "splitTrainVal samples targets (Fin (1/2)) =
         Inr (take (length samples - k) samples, take (length samples - k) targets,
              drop (length samples - k) samples, drop (length samples - k) targets)"
    by auto
  from pk(1) m have "p = 3/2" by simp
  with pk(2) f have k: "k = 1" by simp
  have v: "map to_float32 [Fin 0, Fin (1/2)] = [Fin 0, Fin (1/2)]"
    "map to_float32 [Fin 1] = [Fin 1]"
    "map to_float32 [Fin (1/2), Fin (1073741825/1073741824), Fin 1, Fin (1/4)] =
       [Fin (1/2), Fin 1, Fin 1, Fin (1/4)]"
    "map to_float32 [Fin 0, Fin 1] = [Fin 0, Fin 1]"
    by code_simp+
  have sd: "splitData samples targets (Fin (1/2)) =
     Inr (\<lparr>shape = [1, 1, 2], dataSync = [Fin 0, Fin (1/2)]\<rparr>,
          \<lparr>shape = [1, 1], dataSync = [Fin 1]\<rparr>,
          \<lparr>shape = [2, 1, 2], dataSync = [Fin (1/2), Fin 1, Fin 1, Fin (1/4)]\<rparr>,
          \<lparr>shape = [2, 1], dataSync = [Fin 0, Fin 1]\<rparr>)"
    unfolding pk(3) k using v by (simp add: samples_def targets_def makeTensor_def)
  have st: "splitTrainVal samples targets (Fin (1/2)) =
     Inr ([[[Fin 0, Fin (1/2)]], [[Fin (1/2), Fin (1073741825/1073741824)]]], [[Fin 1], [Fin 0]],
          [[[Fin 1, Fin (1/4)]]], [[Fin 1]])"
    unfolding pk(4) k by (simp add: samples_def targets_def)
  from sd st show ?thesis unfolding samples_def targets_def by simp
qed

text \<open>
  Claim C8 as stated fails. With three pairs and the fraction \<open>1/2\<close> the claim gives a
  train set of \<open>floor(3 * 1/2) = 1\<close> pair; \<open>splitTrainVal\<close> returns two pairs for
  training and one for validation. With ten pairs and the double nearest to \<open>0.7\<close>,
  which is below \<open>0.7\<close>, the exact product is below \<open>7\<close> and its floor is \<open>6\<close>; the
  product in doubles rounds to \<open>7\<close> and \<open>splitData\<close> returns seven pairs for training.
  With one pair and the double nearest to \<open>0.8\<close> the claim gives an empty train set and
  a test set of one pair; \<open>splitData\<close> throws, as \<open>tf.tensor3d\<close> does not build a tensor
  from the empty array.
\<close>

theorem split_counterexample:
  "splitTrainVal [1, 2, 3::nat] [10, 20, 30::nat] (Fin (1/2)) = Inr ([1, 2], [10, 20], [3], [30]) \<and>
   nat \<lfloor>3 * (1/2 :: rat)\<rfloor> = 1 \<and>
   splitData (replicate 10 [[Fin 0, Fin 1]]) (replicate 10 [Fin 1])
       (Fin (3152519739159347 / 4503599627370496)) =
     Inr (\<lparr>shape = [7, 1, 2], dataSync = concat (replicate 7 [Fin 0, Fin 1])\<rparr>,
          \<lparr>shape = [7, 1], dataSync = replicate 7 (Fin 1)\<rparr>,
          \<lparr>shape = [3, 1, 2], dataSync = concat (replicate 3 [Fin 0, Fin 1])\<rparr>,
          \<lparr>shape = [3, 1], dataSync = replicate 3 (Fin 1)\<rparr>) \<and>
   nat \<lfloor>10 * (3152519739159347 / 4503599627370496 :: rat)\<rfloor> = 6 \<and>
   splitData [[[Fin 0, Fin 1]]] [[Fin 1]] (Fin (3602879701896397 / 4503599627370496)) =
     Inl (Error ''tensor3d() requires shape to be provided when `values` are a flat array'') \<and>
   nat \<lfloor>1 * (3602879701896397 / 4503599627370496 :: rat)\<rfloor> = 0"
  by code_simp

subsection \<open>Series alignment\<close>

lemma indexOf_notin: "x \<notin> set xs \<Longrightarrow> indexOf xs x = - 1"
  by (induction xs) (auto simp: Let_def)

lemma indexOf_range: "x \<in> set xs \<Longrightarrow> 0 \<le> indexOf xs x \<and> indexOf xs x < int (length xs)"
  by (induction xs) (auto simp: Let_def)

lemma indexOf_append_in: "x \<in> set xs \<Longrightarrow> indexOf (xs @ ys) x = indexOf xs x"
  by (induction xs) (auto simp: Let_def)

lemma indexOf_append_new: "x \<notin> set xs \<Longrightarrow> indexOf (xs @ [x]) x = int (length xs)"
  by (induction xs) (auto simp: Let_def)

lemma indexOf_nth: "distinct xs \<Longrightarrow> i < length xs \<Longrightarrow> indexOf xs (xs ! i) = int i"
proof (induction xs arbitrary: i)
  case Nil
  then show ?case by simp
next
  case (Cons y ys)
  show ?case
  proof (cases i)
    case 0
    then show ?thesis by simp
  next
    case (Suc j)
    with Cons.prems have j: "j < length ys" "ys ! j \<noteq> y" "distinct ys" by auto
    from Cons.IH[OF j(3) j(1)] j(2) Suc show ?thesis by (simp add: Let_def)
  qed
qed

lemma new_Set_snoc: "new_Set (xs @ [x]) = set_add (new_Set xs) x"
  by (simp add: new_Set_def)

lemma new_Set_first_seen:
  "distinct (new_Set xs) \<and> set (new_Set xs) = set xs \<and>
     sorted_wrt (<) (map (indexOf xs) (new_Set xs))"
proof (induction xs rule: rev_induct)
  case Nil
  show ?case by (simp add: new_Set_def)
next
  case (snoc x xs)
  then have d: "distinct (new_Set xs)" and s: "set (new_Set xs) = set xs"
    and o: "sorted_wrt (<) (map (indexOf xs) (new_Set xs))" by simp_all
  have same: "map (indexOf (xs @ [x])) (new_Set xs) = map (indexOf xs) (new_Set xs)"
    by (rule map_cong[OF refl]) (simp add: s indexOf_append_in)
  show ?case
  proof (cases "x \<in> set xs")
    case True
    then have e: "new_Set (xs @ [x]) = new_Set xs" by (simp add: new_Set_snoc set_add_def s)
    show ?thesis unfolding e same using d s o True by auto
  next
    case False
    then have n: "new_Set (xs @ [x]) = new_Set xs @ [x]" by (simp add: new_Set_snoc set_add_def s)
    have m: "map (indexOf (xs @ [x])) (new_Set xs @ [x]) =
               map (indexOf xs) (new_Set xs) @ [int (length xs)]"
      using same False by (simp add: indexOf_append_new)
    have "indexOf xs a < int (length xs)" if "a \<in> set (new_Set xs)" for a
      using that s indexOf_range[of a xs] by simp
    then have "sorted_wrt (<) (map (indexOf xs) (new_Set xs) @ [int (length xs)])"
      using o by (auto simp: sorted_wrt_append)
    then show ?thesis unfolding n m using d s False by auto
  qed
qed

lemma keys_obj_set:
  "map fst (obj_set obj k v) = (if k \<in> set (map fst obj) then map fst obj else map fst obj @ [k])"
  by (induction obj) force+

lemma distinct_obj_set: "distinct (map fst obj) \<Longrightarrow> distinct (map fst (obj_set obj k v))"
  by (simp add: keys_obj_set)

lemma pivot_series_keys:
  "distinct (map fst (foldl (\<lambda>series date.
              case find (\<lambda>r. row_Date r = date \<and> row_Symbol r = symbol) data of
                None \<Rightarrow> series
              | Some row \<Rightarrow>
                  obj_set series date
                    \<lparr>Open = parseFloat (row_Open row), Close = parseFloat (row_Close row)\<rparr>)
       acc dates))" if "distinct (map fst acc)"
  using that by (induction dates arbitrary: acc) (auto simp: distinct_obj_set split: option.splits)

lemma distinct_pivot_series: "distinct (map fst (pivot_series data dates symbol))"
  unfolding pivot_series_def by (rule pivot_series_keys) simp

lemma pivoted_keys:
  assumes "distinct ks" "set ks \<inter> set (map fst acc) = {}"
  shows "map fst (foldl (\<lambda>p k. obj_set p k (f k)) acc ks) = map fst acc @ ks"
  using assms
proof (induction ks arbitrary: acc)
  case Nil
  then show ?case by simp
next
  case (Cons k ks)
  have "map fst (obj_set acc k (f k)) = map fst acc @ [k]"
    using Cons.prems(2) by (simp add: keys_obj_set)
  moreover from this Cons.prems have "set ks \<inter> set (map fst (obj_set acc k (f k))) = {}"
    by auto
  ultimately show ?case using Cons.IH[of "obj_set acc k (f k)"] Cons.prems(1) by simp
qed

lemma pivoted_series:
  "list_all (\<lambda>entry. distinct (map fst (snd entry)))
     (foldl (\<lambda>p k. obj_set p k (pivot_series data dates k)) acc ks)"
  if "list_all (\<lambda>entry. distinct (map fst (snd entry))) acc"
  using that
proof (induction ks arbitrary: acc)
  case Nil
  then show ?case by simp
next
  case (Cons k ks)
  have "list_all (\<lambda>entry. distinct (map fst (snd entry))) (obj_set acc k v)"
    if "distinct (map fst v)" for v
    using Cons.prems that by (induction acc) auto
  from Cons.IH[OF this[OF distinct_pivot_series]] show ?case by simp
qed

text \<open>
  Claim C9. For every list of records, the dates of the pivot are strictly increasing (so
  they hold no date twice) and are the dates of the records; the symbols are distinct, are
  the symbols of the records and stand in the order of their first occurrence in the
  records; the aligned series has one property per symbol, and within the series of a
  symbol no date occurs twice: every pair (symbol, date) has at most one entry.
\<close>

theorem pivotData_orderings:
  assumes "pivotData data = (pivoted, symbols, dates)"
  shows "sorted_wrt (<) dates \<and> set dates = set (map row_Date data) \<and>
         distinct symbols \<and> set symbols = set (map row_Symbol data) \<and>
         sorted_wrt (<) (map (indexOf (map row_Symbol data)) symbols) \<and>
         distinct (map fst pivoted) \<and> set (map fst pivoted) = set symbols \<and>
         list_all (\<lambda>entry. distinct (map fst (snd entry))) pivoted"
proof -
  from assms have sy: "symbols = new_Set (map row_Symbol data)"
    and da: "dates = sort (new_Set (map row_Date data))"
    and pi: "pivoted = foldl (\<lambda>p symbol. obj_set p symbol (pivot_series data dates symbol)) [] symbols"
    by (auto simp: pivotData_def Let_def)
  note fs = new_Set_first_seen[of "map row_Symbol data"]
  note fd = new_Set_first_seen[of "map row_Date data"]
  have "sorted dates" "distinct dates" using fd by (simp_all add: da)
  then have 1: "sorted_wrt (<) dates" by (simp add: strict_sorted_iff)
  have 2: "set dates = set (map row_Date data)" using fd by (simp add: da)
  have 3: "distinct symbols" "set symbols = set (map row_Symbol data)"
    "sorted_wrt (<) (map (indexOf (map row_Symbol data)) symbols)"
    using fs by (simp_all add: sy)
  have 4: "map fst pivoted = symbols"
    unfolding pi using pivoted_keys[OF 3(1), of "[]"] by simp
  have 5: "list_all (\<lambda>entry. distinct (map fst (snd entry))) pivoted"
    unfolding pi by (rule pivoted_series) simp
  from 3(1) 4 have 6: "distinct (map fst pivoted)" "set (map fst pivoted) = set symbols"
    by simp_all
  from 1 2 3 5 6 show ?thesis by simp
qed

theorem pivotData_orderings_witness:
  "let data = [\<lparr>row_Date = ''2024-01-03'', row_Symbol = ''MSFT'', row_Open = ''1'', row_Close = ''2''\<rparr>,
               \<lparr>row_Date = ''2024-01-02'', row_Symbol = ''AAPL'', row_Open = ''3'', row_Close = ''4''\<rparr>,
               \<lparr>row_Date = ''2024-01-03'', row_Symbol = ''AAPL'', row_Open = ''5'', row_Close = ''6''\<rparr>,
               \<lparr>row_Date = ''2024-01-03'', row_Symbol = ''AAPL'', row_Open = ''7'', row_Close = ''8''\<rparr>]
   in fst (snd (pivotData data)) = [''MSFT'', ''AAPL''] \<and>
      snd (snd (pivotData data)) = [''2024-01-02'', ''2024-01-03''] \<and>
      sorted_wrt (<) (snd (snd (pivotData data))) \<and>
      distinct (fst (snd (pivotData data))) \<and>
      distinct (map fst (fst (pivotData data))) \<and>
      set (map fst (fst (pivotData data))) = {''MSFT'', ''AAPL''} \<and>
      list_all (\<lambda>entry. distinct (map fst (snd entry))) (fst (pivotData data))"
proof -
  define data where "data = [\<lparr>row_Date = ''2024-01-03'', row_Symbol = ''MSFT'', row_Open = ''1'', row_Close = ''2''\<rparr>,
               \<lparr>row_Date = ''2024-01-02'', row_Symbol = ''AAPL'', row_Open = ''3'', row_Close = ''4''\<rparr>,
               \<lparr>row_Date = ''2024-01-03'', row_Symbol = ''AAPL'', row_Open = ''5'', row_Close = ''6''\<rparr>,
               \<lparr>row_Date = ''2024-01-03'', row_Symbol = ''AAPL'', row_Open = ''7'', row_Close = ''8''\<rparr>]"
  have s: "fst (snd (pivotData data)) = [''MSFT'', ''AAPL'']"
    unfolding data_def by code_simp
  have d: "snd (snd (pivotData data)) = [''2024-01-02'', ''2024-01-03'']"
    unfolding data_def by code_simp
  have "pivotData data = (fst (pivotData data), fst (snd (pivotData data)), snd (snd (pivotData data)))"
    by simp
  from pivotData_orderings[OF this] s d show ?thesis
    unfolding data_def[symmetric] Let_def by simp
qed

subsection \<open>Tabular ingestion of the digit data\<close>

lemma split_on_none: "c \<notin> set l \<Longrightarrow> split_on c l = [l]"
  by (induction l) auto

lemma split_on_append: "c \<notin> set l \<Longrightarrow> split_on c (l @ c # rest) = l # split_on c rest"
  by (induction l) auto

lemma split_on_join_lines:
  assumes "list_all (\<lambda>l. CHR 0x0A \<notin> set l) ls" "ls \<noteq> []"
  shows "split_on CHR 0x0A (join_lines ls) = ls"
  using assms
proof (induction ls rule: join_lines.induct)
  case 1
  then show ?case by simp
next
  case (2 l)
  then show ?case by (simp add: split_on_none)
next
  case (3 l v va)
  then show ?case by (simp add: split_on_append)
qed

lemma blank_no_comma:
  assumes "trim l = []"
  shows "CHR '','' \<notin> set l"
proof -
  have "dropWhile is_ws l = []"
  proof (rule ccontr)
    assume n: "dropWhile is_ws l \<noteq> []"
    then have h: "\<not> is_ws (hd (dropWhile is_ws l))" by (rule hd_dropWhile)
    from assms have "dropWhile is_ws (rev (dropWhile is_ws l)) = []" by (simp add: trim_def)
    then have "list_all is_ws (rev (dropWhile is_ws l))"
      by (simp add: list_all_iff)
    then have "list_all is_ws (dropWhile is_ws l)" by (simp add: list_all_iff)
    with n have "is_ws (hd (dropWhile is_ws l))" by (cases "dropWhile is_ws l") simp_all
    with h show False by simp
  qed
  then have "list_all is_ws l" by (simp add: list_all_iff)
  moreover have "\<not> is_ws CHR '',''" by (simp add: is_ws_def)
  ultimately show ?thesis by (auto simp: list_all_iff)
qed

lemma row_not_blank:
  assumes "length (values_of l) = 785"
  shows "trim l \<noteq> []"
proof
  assume "trim l = []"
  from split_on_none[OF blank_no_comma[OF this]] assms show False
    by (simp add: values_of_def)
qed

lemma parse_lines_filter:
  "parse_lines ls =
     (map (\<lambda>l. hd (values_of l)) (filter (\<lambda>l. length (values_of l) = 785) ls),
      map (\<lambda>l. tl (values_of l)) (filter (\<lambda>l. length (values_of l) = 785) ls))"
  by (induction ls) (simp_all add: Let_def)

lemma filter_rows_nonblank:
  "filter (\<lambda>l. length (values_of l) = 785) (filter (\<lambda>line. trim line \<noteq> []) ls) =
   filter (\<lambda>l. length (values_of l) = 785) ls"
  using row_not_blank by (induction ls) auto

text \<open>
  Claim C5, as amended. For the text of any lines, the rows ingestion keeps are exactly
  the lines with exactly 785 comma-separated fields, whether the fields are numeric or not
  (a field that is no number is kept as \<open>NaN\<close>), in their original order: the label of a
  record is the first value of its line and its pixels are the other 784. Every other
  line, a blank one too, is dropped silently. The promise is rejected with the error
  \<open>No valid data found in file\<close> exactly when no line has 785 fields.
\<close>

theorem loadCSVFile_rows:
  assumes "list_all (\<lambda>l. CHR 0x0A \<notin> set l) ls"
  shows "loadCSVFile (join_lines ls) =
     (let rows = filter (\<lambda>l. length (split_on CHR '','' l) = 785) ls
      in if rows = [] then Inl (Error ''No valid data found in file'')
         else Inr (map (\<lambda>l. hd (values_of l)) rows, map (\<lambda>l. tl (values_of l)) rows))"
proof -
  have c: "(\<lambda>l. length (split_on CHR '','' l) = 785) = (\<lambda>l. length (values_of l) = 785)"
    by (simp add: values_of_def)
  have lines: "filter (\<lambda>l. length (values_of l) = 785)
                 (filter (\<lambda>line. trim line \<noteq> []) (split_on CHR 0x0A (join_lines ls))) =
               filter (\<lambda>l. length (values_of l) = 785) ls"
  proof (cases "ls = []")
    case True
    then show ?thesis by (simp add: trim_def)
  next
    case False
    show ?thesis unfolding split_on_join_lines[OF assms False] by (rule filter_rows_nonblank)
  qed
  show ?thesis
    unfolding loadCSVFile_def Let_def parse_lines_filter c fst_conv lines by simp
qed


lemma split_on_fields:
  assumes "c \<notin> set g"
  shows "c \<notin> set f \<Longrightarrow> split_on c (f @ concat (replicate n (c # g))) = f # replicate n g"
proof (induction n arbitrary: f)
  case 0
  then show ?case by (simp add: split_on_none)
next
  case (Suc n)
  have "split_on c (f @ c # (g @ concat (replicate n (c # g)))) =
          f # split_on c (g @ concat (replicate n (c # g)))"
    by (rule split_on_append[OF Suc.prems])
  with Suc.IH[OF assms] show ?case by simp
qed

lemma values_of_fields:
  assumes "CHR '','' \<notin> set f" "CHR '','' \<notin> set g"
  shows "values_of (f @ concat (replicate n (CHR '','' # g))) = Number f # replicate n (Number g)"
  by (simp add: values_of_def split_on_fields[OF assms(2) assms(1)])

lemma loadCSVFile_single_row:
  assumes "CHR 0x0A \<notin> set l" "length (values_of l) = 785"
  shows "loadCSVFile l = Inr ([hd (values_of l)], [tl (values_of l)])"
  using row_not_blank[OF assms(2)] assms(2)
  by (simp add: loadCSVFile_def split_on_none[OF assms(1)] Let_def)

theorem loadCSVFile_rows_witness:
  "list_all (\<lambda>l. CHR 0x0A \<notin> set l)
     [''1,2,3'', ''7'' @ concat (replicate 784 '',255''), [], ''label,pixels''] \<and>
   loadCSVFile (join_lines [''1,2,3'', ''7'' @ concat (replicate 784 '',255''), [], ''label,pixels''])
     = Inr ([Fin 7], [replicate 784 (Fin 255)])"
proof -
  define row where "row = ''7'' @ concat (replicate 784 '',255'')"
  have n7: "Number ''7'' = Fin 7" and n255: "Number ''255'' = Fin 255" by code_simp+
  have v: "values_of row = Fin 7 # replicate 784 (Fin 255)"
    unfolding row_def using values_of_fields[of "''7''" "''255''" 784] by (simp add: n7 n255)
  have "length (values_of row) = 785" by (simp add: v)
  then have c: "length (split_on CHR '','' row) = 785" by (simp add: values_of_def)
  have o: "length (split_on CHR '','' ''1,2,3'') = 3" "length (split_on CHR '','' []) = 1"
    "length (split_on CHR '','' ''label,pixels'') = 2" by simp_all
  have nl: "CHR 0x0A \<notin> set row" unfolding row_def by auto
  have h: "list_all (\<lambda>l. CHR 0x0A \<notin> set l) [''1,2,3'', row, [], ''label,pixels'']"
    using nl by simp
  from loadCSVFile_rows[OF h] have
    "loadCSVFile (join_lines [''1,2,3'', row, [], ''label,pixels'']) =
       Inr ([Fin 7], [replicate 784 (Fin 255)])"
    unfolding Let_def by (simp add: c o v del: split_on.simps)
  with h show ?thesis unfolding row_def by simp
qed

text \<open>
  Claim C5 as stated fails: the one row of this text has 785 fields, the first of which is
  not numeric, so the text has no well-formed row and one malformed row. Ingestion does
  not fail and does not drop the row: it returns one record, with the label \<open>NaN\<close>.
\<close>

theorem loadCSVFile_keeps_non_numeric_row:
  "Number ''x'' = NaN \<and>
   loadCSVFile (''x'' @ concat (replicate 784 '',0'')) = Inr ([NaN], [replicate 784 (Fin 0)])"
proof -
  define row where "row = ''x'' @ concat (replicate 784 '',0'')"
  have nx: "Number ''x'' = NaN" and n0: "Number ''0'' = Fin 0" by code_simp+
  have v: "values_of row = NaN # replicate 784 (Fin 0)"
    unfolding row_def using values_of_fields[of "''x''" "''0''" 784] by (simp add: nx n0)
  have nl: "CHR 0x0A \<notin> set row" unfolding row_def by auto
  have "loadCSVFile row = Inr ([NaN], [replicate 784 (Fin 0)])"
    using loadCSVFile_single_row[OF nl] v by (simp)
  with nx show ?thesis unfolding row_def by simp
qed

subsection \<open>Window and label builder: the target labels\<close>

lemma nth_concat_uniform:
  assumes "list_all (\<lambda>xs. length xs = n) xss" "i < length xss" "k < n"
  shows "concat xss ! (i * n + k) = xss ! i ! k"
  using assms
proof (induction xss arbitrary: i)
  case Nil
  then show ?case by simp
next
  case (Cons xs xss)
  show ?case
  proof (cases i)
    case 0
    with Cons.prems show ?thesis by (simp add: nth_append)
  next
    case (Suc j)
    with Cons.prems have "concat xss ! (j * n + k) = xss ! j ! k"
      by (intro Cons.IH) simp_all
    with Cons.prems Suc show ?thesis by (simp add: nth_append)
  qed
qed

lemma length_horizon_labels [simp]:
  "length (horizon_labels nd symbols dates currentDate offset) = length symbols"
  by (simp add: horizon_labels_def Let_def)

lemma horizon_labels_nth:
  assumes "distinct dates" "i + h < length dates" "k < length symbols"
  shows "horizon_labels nd symbols dates (dates ! i) h ! k =
     (case lookup2 nd (symbols ! k) (dates ! (i + h)) of
        None \<Rightarrow> 0
      | Some r \<Rightarrow> if js_gt (Close r) (currentClosePrices nd (dates ! i) (symbols ! k)) then 1 else 0)"
proof -
  have "indexOf dates (dates ! i) = int i" using assms(1,2) by (simp add: indexOf_nth)
  then have "indexOf dates (dates ! i) + int h = int (i + h)" by simp
  then show ?thesis
    using assms(2,3) unfolding horizon_labels_def Let_def by (simp add: nat_add_distrib)
qed

lemma sample_target_nth:
  assumes "distinct dates" "i + hs < length dates" "1 \<le> h" "h \<le> hs" "k < length symbols"
  shows "sample_target nd symbols dates (dates ! i) hs ! ((h - 1) * length symbols + k) =
     (case lookup2 nd (symbols ! k) (dates ! (i + h)) of
        None \<Rightarrow> 0
      | Some r \<Rightarrow> if js_gt (Close r) (currentClosePrices nd (dates ! i) (symbols ! k)) then 1 else 0)"
proof -
  let ?xss = "map (horizon_labels nd symbols dates (dates ! i)) [1..<Suc hs]"
  have u: "list_all (\<lambda>xs. length xs = length symbols) ?xss" by (simp add: list_all_iff)
  have l: "h - 1 < length ?xss" using assms(3,4) by simp
  have "?xss ! (h - 1) = horizon_labels nd symbols dates (dates ! i) h"
    using assms(3,4) by (simp del: upt_Suc)
  with nth_concat_uniform[OF u l assms(5)] have
    "sample_target nd symbols dates (dates ! i) hs ! ((h - 1) * length symbols + k) =
       horizon_labels nd symbols dates (dates ! i) h ! k"
    by (simp add: sample_target_def del: upt_Suc)
  also have "\<dots> = (case lookup2 nd (symbols ! k) (dates ! (i + h)) of
        None \<Rightarrow> 0
      | Some r \<Rightarrow> if js_gt (Close r) (currentClosePrices nd (dates ! i) (symbols ! k)) then 1 else 0)"
    using assms by (intro horizon_labels_nth) simp_all
  finally show ?thesis .
qed

lemma targets_nth:
  assumes "t \<le> i" "i + hs < length dates"
  shows "snd (prepareSamples nd symbols dates t hs) ! (i - t) =
           sample_target nd symbols dates (dates ! i) hs"
proof -
  have h: "hs \<le> length dates" using assms(2) by simp
  have i: "i < length dates - hs" using assms(2) by simp
  have "[t..<length dates - hs] ! (i - t) = i" using assms(1) i by simp
  then show ?thesis
    unfolding prepareSamples_def Let_def js_slice_dates using h i assms(1) by simp
qed

lemma target_bit_eq:
  assumes "distinct dates" "t \<le> i" "i + hs < length dates" "1 \<le> h" "h \<le> hs"
    "k < length symbols"
  shows "snd (prepareSamples nd symbols dates t hs) ! (i - t) ! ((h - 1) * length symbols + k) =
     (case lookup2 nd (symbols ! k) (dates ! (i + h)) of
        None \<Rightarrow> 0
      | Some r \<Rightarrow> if js_gt (Close r) (currentClosePrices nd (dates ! i) (symbols ! k)) then 1 else 0)"
  unfolding targets_nth[OF assms(2,3)] by (rule sample_target_nth[OF assms(1,3,4,5,6)])

text \<open>
  Claim C1, as amended. Let the dates be distinct, \<open>i\<close> an anchor index in \<open>[T, D - H)\<close>,
  \<open>h\<close> a horizon in \<open>[1, H]\<close> and \<open>k\<close> the position of an entity in the canonical order. The
  target bit of the anchor at position \<open>(h - 1) * S + k\<close> is \<open>0\<close> when the entity has no
  record at \<open>dates[i+h]\<close>; otherwise it is \<open>1\<close> if the Close at \<open>dates[i+h]\<close> is strictly
  greater than the Close at the anchor date, else \<open>0\<close>, where an entity with no record at
  the anchor date counts with the Close \<open>0\<close>.
\<close>

theorem target_label:
  assumes "distinct dates" "t \<le> i" "i + hs < length dates" "1 \<le> h" "h \<le> hs"
    "k < length symbols"
  shows "snd (prepareSamples nd symbols dates t hs) ! (i - t) ! ((h - 1) * length symbols + k) =
     (case lookup2 nd (symbols ! k) (dates ! (i + h)) of
        None \<Rightarrow> 0
      | Some future \<Rightarrow>
          (case lookup2 nd (symbols ! k) (dates ! i) of
             None \<Rightarrow> if js_gt (Close future) (Fin 0) then 1 else 0
           | Some current \<Rightarrow> if js_gt (Close future) (Close current) then 1 else 0))"
  unfolding target_bit_eq[OF assms]
  by (simp add: currentClosePrices_def split: option.splits)

theorem target_label_witness:
  "snd (prepareSamples
      [(''AAPL'', [(''2024-01-02'', \<lparr>Open = Fin 1, Close = Fin (1/2)\<rparr>),
                   (''2024-01-03'', \<lparr>Open = Fin 1, Close = Fin (3/4)\<rparr>)])]
      [''AAPL''] [''2024-01-01'', ''2024-01-02'', ''2024-01-03''] 1 1) ! (1 - 1) ! ((1 - 1) * 1 + 0) = 1"
proof -
  let ?nd = "[(''AAPL'', [(''2024-01-02'', \<lparr>Open = Fin 1, Close = Fin (1/2)\<rparr>),
                   (''2024-01-03'', \<lparr>Open = Fin 1, Close = Fin (3/4)\<rparr>)])]"
  let ?dates = "[''2024-01-01'', ''2024-01-02'', ''2024-01-03'']"
  have d: "distinct ?dates" by simp
  have f: "lookup2 ?nd ([''AAPL''] ! 0) (?dates ! (1 + 1)) = Some \<lparr>Open = Fin 1, Close = Fin (3/4)\<rparr>"
    by (simp add: lookup2_def)
  have c: "lookup2 ?nd ([''AAPL''] ! 0) (?dates ! 1) = Some \<lparr>Open = Fin 1, Close = Fin (1/2)\<rparr>"
    by (simp add: lookup2_def)
  from target_label[OF d, of 1 1 1 1 0 "[''AAPL'']" ?nd]
  show ?thesis unfolding f c by (simp add: js_gt_def)
qed

text \<open>
  Claim C1 as stated fails where the record of the anchor date is missing: the entity has
  no record at the anchor date \<open>2024-01-02\<close> and the Close \<open>1\<close> at the next date; the
  label is \<open>1\<close>, not \<open>0\<close>.
\<close>

theorem target_label_missing_anchor:
  "lookup2 [(''AAPL'', [(''2024-01-03'', \<lparr>Open = Fin 1, Close = Fin 1\<rparr>)])] ''AAPL'' ''2024-01-02'' = None \<and>
   snd (prepareSamples [(''AAPL'', [(''2024-01-03'', \<lparr>Open = Fin 1, Close = Fin 1\<rparr>)])]
      [''AAPL''] [''2024-01-01'', ''2024-01-02'', ''2024-01-03''] 1 1) = [[1]]"
  by (simp add: lookup2_def prepareSamples_def Let_def js_slice_def sample_target_def
       horizon_labels_def currentClosePrices_def js_gt_def)

subsection \<open>Normalizer: order and degenerate statistics\<close>

lemma js_lt_never [simp]: "js_lt a NaN = False" "js_lt a NInf = False" "js_lt PInf a = False"
  by (cases a; simp)+

lemma js_sub_lt_imp:
  "js_lt (js_sub y m) (js_sub x m) \<Longrightarrow> js_lt y x"
  by (cases x; cases y; cases m) (auto dest: js_round_lt_imp)

lemma js_div_lt_imp:
  assumes "\<not> js_lt d (Fin 0)" "js_lt (js_div y d) (js_div x d)"
  shows "js_lt y x"
proof (cases d)
  case (Fin dv)
  with assms(1) have dv: "0 \<le> dv" by simp
  show ?thesis
  proof (cases "dv = 0")
    case True
    with assms(2) Fin show ?thesis
      by (cases x; cases y) (auto split: if_splits)
  next
    case False
    with dv have pos: "0 < dv" by simp
    have "a < b" if "js_lt (js_round (a / dv)) (js_round (b / dv))" for a b
      using js_round_lt_imp[OF that] pos by (simp add: divide_less_cancel)
    with assms(2) Fin False pos show ?thesis
      by (cases x; cases y) (auto split: if_splits)
  qed
qed (use assms in \<open>cases x; cases y; simp\<close>)+


lemma js_le_refl: "a \<noteq> NaN \<Longrightarrow> js_le a a"
  by (cases a) (simp_all add: js_le_def)

lemma js_le_trans: "js_le a b \<Longrightarrow> js_le b c \<Longrightarrow> js_le a c"
  by (cases a; cases b; cases c) (simp_all add: js_le_def)

lemma js_le_antisym: "js_le a b \<Longrightarrow> js_le b a \<Longrightarrow> a = b"
  by (cases a; cases b) (simp_all add: js_le_def)

lemma js_min2_le:
  "a \<noteq> NaN \<Longrightarrow> b \<noteq> NaN \<Longrightarrow>
     js_min2 a b \<noteq> NaN \<and> js_le (js_min2 a b) a \<and> js_le (js_min2 a b) b"
  by (cases a; cases b) (simp_all add: js_le_def)

lemma js_max2_le:
  "a \<noteq> NaN \<Longrightarrow> b \<noteq> NaN \<Longrightarrow>
     js_max2 a b \<noteq> NaN \<and> js_le a (js_max2 a b) \<and> js_le b (js_max2 a b)"
  by (cases a; cases b) (simp_all add: js_le_def)

lemma js_min2_NaN [simp]: "js_min2 a NaN = NaN" "js_max2 a NaN = NaN"
  by (cases a; simp)+

lemma foldl_NaN_acc [simp]: "foldl js_min2 NaN vs = NaN" "foldl js_max2 NaN vs = NaN"
  by (induction vs) simp_all

lemma foldl_min_NaN: "NaN \<in> set vs \<Longrightarrow> foldl js_min2 acc vs = NaN"
proof (induction vs arbitrary: acc)
  case Nil
  then show ?case by simp
next
  case (Cons v vs)
  show ?case
  proof (cases "v = NaN")
    case True
    then show ?thesis by simp
  next
    case False
    with Cons.prems have "NaN \<in> set vs" by simp
    from Cons.IH[OF this] show ?thesis by simp
  qed
qed

lemma foldl_max_NaN: "NaN \<in> set vs \<Longrightarrow> foldl js_max2 acc vs = NaN"
proof (induction vs arbitrary: acc)
  case Nil
  then show ?case by simp
next
  case (Cons v vs)
  show ?case
  proof (cases "v = NaN")
    case True
    then show ?thesis by simp
  next
    case False
    with Cons.prems have "NaN \<in> set vs" by simp
    from Cons.IH[OF this] show ?thesis by simp
  qed
qed

lemma foldl_min_le:
  assumes "acc \<noteq> NaN" "NaN \<notin> set vs"
  shows "js_le (foldl js_min2 acc vs) acc \<and> (\<forall>v\<in>set vs. js_le (foldl js_min2 acc vs) v)"
  using assms
proof (induction vs arbitrary: acc)
  case Nil
  then show ?case by (simp add: js_le_refl)
next
  case (Cons v vs)
  then have v: "v \<noteq> NaN" and vs: "NaN \<notin> set vs" by auto
  note m = js_min2_le[OF Cons.prems(1) v]
  from Cons.IH[of "js_min2 acc v"] m vs have
    ih: "js_le (foldl js_min2 (js_min2 acc v) vs) (js_min2 acc v)"
        "\<forall>w\<in>set vs. js_le (foldl js_min2 (js_min2 acc v) vs) w" by simp_all
  from js_le_trans[OF ih(1)] m ih(2) show ?case by auto
qed

lemma foldl_max_le:
  assumes "acc \<noteq> NaN" "NaN \<notin> set vs"
  shows "js_le acc (foldl js_max2 acc vs) \<and> (\<forall>v\<in>set vs. js_le v (foldl js_max2 acc vs))"
  using assms
proof (induction vs arbitrary: acc)
  case Nil
  then show ?case by (simp add: js_le_refl)
next
  case (Cons v vs)
  then have v: "v \<noteq> NaN" and vs: "NaN \<notin> set vs" by auto
  note m = js_max2_le[OF Cons.prems(1) v]
  from Cons.IH[of "js_max2 acc v"] m vs have
    ih: "js_le (js_max2 acc v) (foldl js_max2 (js_max2 acc v) vs)"
        "\<forall>w\<in>set vs. js_le w (foldl js_max2 (js_max2 acc v) vs)" by simp_all
  from m ih(1) have "js_le acc (foldl js_max2 (js_max2 acc v) vs)"
    "js_le v (foldl js_max2 (js_max2 acc v) vs)" by (blast intro: js_le_trans)+
  with ih(2) show ?case by auto
qed

lemma Math_min_max_NaN: "NaN \<in> set vs \<Longrightarrow> Math_min vs = NaN \<and> Math_max vs = NaN"
  by (simp add: Math_min_def Math_max_def foldl_min_NaN foldl_max_NaN)

lemma Math_min_max_bounds:
  assumes "NaN \<notin> set vs" "v \<in> set vs"
  shows "js_le (Math_min vs) v" "js_le v (Math_max vs)"
  using foldl_min_le[of PInf vs] foldl_max_le[of NInf vs] assms
  by (simp_all add: Math_min_def Math_max_def)

lemma width_not_negative:
  assumes "js_le mn mx"
  shows "\<not> js_lt (js_sub mx mn) (Fin 0)"
proof (cases mn; cases mx)
  fix a b assume f: "mn = Fin a" "mx = Fin b"
  with assms have "0 \<le> b - a" by (simp add: js_le_def)
  from js_round_mono[OF this] f show ?thesis by simp
qed (use assms in \<open>simp_all add: js_le_def\<close>)

lemma width_of_values:
  assumes "vs \<noteq> []"
  shows "\<not> js_lt (js_sub (Math_max vs) (Math_min vs)) (Fin 0)"
proof (cases "NaN \<in> set vs")
  case True
  then show ?thesis by (simp add: Math_min_max_NaN)
next
  case False
  from assms have "hd vs \<in> set vs" by simp
  from Math_min_max_bounds[OF False this] have "js_le (Math_min vs) (Math_max vs)"
    by (rule js_le_trans)
  then show ?thesis by (rule width_not_negative)
qed

lemma scale_lt_imp:
  assumes "vs \<noteq> []" "js_lt (scale (min_max_of vs) b) (scale (min_max_of vs) a)"
  shows "js_lt b a"
proof -
  from assms(2) have "js_lt (js_div (js_sub b (Math_min vs)) (js_sub (Math_max vs) (Math_min vs)))
                            (js_div (js_sub a (Math_min vs)) (js_sub (Math_max vs) (Math_min vs)))"
    by (simp add: scale_def min_max_of_def)
  from js_div_lt_imp[OF width_of_values[OF assms(1)] this] show ?thesis
    by (rule js_sub_lt_imp)
qed

lemma degenerate_NaN: "a \<noteq> NaN \<Longrightarrow> js_div (js_sub a a) (js_sub a a) = NaN"
  by (cases a) simp_all

lemma scale_degenerate:
  assumes "js_strict_eq (Math_min vs) (Math_max vs)" "v \<in> set vs"
  shows "scale (min_max_of vs) v = NaN"
proof -
  from assms(1) have n: "Math_min vs \<noteq> NaN" and e: "Math_max vs = Math_min vs"
    by (cases "Math_min vs"; cases "Math_max vs"; simp)+
  from n have "NaN \<notin> set vs" using Math_min_max_NaN by blast
  from Math_min_max_bounds[OF this assms(2)] have "v = Math_min vs"
    unfolding e by (rule js_le_antisym[OF _ _, symmetric])
  then show ?thesis using degenerate_NaN[OF n] by (simp add: scale_def min_max_of_def e)
qed

subsection \<open>Normalizer: the claims\<close>

lemma map_of_normalize_series:
  "map_of (normalize_series series) date =
     map_option (\<lambda>original.
        \<lparr>Open = scale (min_max_of (map Open (map snd series))) (Open original),
         Close = scale (min_max_of (map Close (map snd series))) (Close original)\<rparr>)
       (map_of series date)"
  unfolding normalize_series_def Let_def by (simp add: map_of_map)

lemma lookup2_normalizeData:
  "lookup2 (fst (normalizeData pivotedData)) symbol date =
     (case map_of pivotedData symbol of
        None \<Rightarrow> None
      | Some series \<Rightarrow> map_of (normalize_series series) date)"
  unfolding lookup2_def normalizeData_def fst_conv by (simp add: map_of_map split: option.splits)

lemma lookup2_normalized_Close:
  assumes "map_of pivotedData symbol = Some series" "map_of series date = Some r"
  shows "\<exists>n. lookup2 (fst (normalizeData pivotedData)) symbol date = Some n \<and>
             Close n = scale (min_max_of (map Close (map snd series))) (Close r)"
  by (simp add: lookup2_normalizeData assms map_of_normalize_series)

lemma series_nonempty:
  assumes "map_of series date = Some r"
  shows "map Close (map snd series) \<noteq> []" "Close r \<in> set (map Close (map snd series))"
proof -
  from assms have "(date, r) \<in> set series" by (rule map_of_SomeD)
  then show "map Close (map snd series) \<noteq> []" "Close r \<in> set (map Close (map snd series))"
    by force+
qed

lemma normalized_gt_imp:
  assumes "map_of pivotedData symbol = Some series"
    "map_of series d1 = Some r1" "map_of series d2 = Some r2"
  shows "\<exists>n1 n2. lookup2 (fst (normalizeData pivotedData)) symbol d1 = Some n1 \<and>
                 lookup2 (fst (normalizeData pivotedData)) symbol d2 = Some n2 \<and>
                 (js_gt (Close n1) (Close n2) \<longrightarrow> js_gt (Close r1) (Close r2))"
proof -
  from lookup2_normalized_Close[OF assms(1,2)] obtain n1 where
    n1: "lookup2 (fst (normalizeData pivotedData)) symbol d1 = Some n1"
        "Close n1 = scale (min_max_of (map Close (map snd series))) (Close r1)" by blast
  from lookup2_normalized_Close[OF assms(1,3)] obtain n2 where
    n2: "lookup2 (fst (normalizeData pivotedData)) symbol d2 = Some n2"
        "Close n2 = scale (min_max_of (map Close (map snd series))) (Close r2)" by blast
  have "js_gt (Close r1) (Close r2)" if "js_gt (Close n1) (Close n2)"
    using that scale_lt_imp[OF series_nonempty(1)[OF assms(2)]]
    unfolding js_gt_def n1(2) n2(2) by blast
  with n1(1) n2(1) show ?thesis by blast
qed

lemma lookup2_Some:
  "lookup2 pivotedData symbol date = Some r \<longleftrightarrow>
     (\<exists>series. map_of pivotedData symbol = Some series \<and> map_of series date = Some r)"
  by (simp add: lookup2_def split: option.splits)

text \<open>
  Claim C10, as amended. Min-max normalization preserves the order of an entity's Close
  values, but not strictly: for any two dates at which the entity has records, if the
  normalized Close at the first date is strictly greater than at the second, so is the raw
  Close (two different raw values may round to the same normalized double).
  Consequently, for anchors and horizons where both records are present, a target label
  computed from the normalized Close values is at most the label computed from the raw
  Close values: a label \<open>1\<close> from the normalized data is a label \<open>1\<close> from the raw data.
\<close>

theorem normalized_close_order:
  "(\<forall>symbol d1 d2 r1 r2.
      lookup2 pivotedData symbol d1 = Some r1 \<and> lookup2 pivotedData symbol d2 = Some r2 \<longrightarrow>
      (\<exists>n1 n2. lookup2 (fst (normalizeData pivotedData)) symbol d1 = Some n1 \<and>
               lookup2 (fst (normalizeData pivotedData)) symbol d2 = Some n2 \<and>
               (js_gt (Close n1) (Close n2) \<longrightarrow> js_gt (Close r1) (Close r2)))) \<and>
   (\<forall>symbols dates t hs i h k.
      distinct dates \<and> t \<le> i \<and> i + hs < length dates \<and> 1 \<le> h \<and> h \<le> hs \<and>
      k < length symbols \<and>
      lookup2 pivotedData (symbols ! k) (dates ! i) \<noteq> None \<and>
      lookup2 pivotedData (symbols ! k) (dates ! (i + h)) \<noteq> None \<longrightarrow>
      snd (prepareSamples (fst (normalizeData pivotedData)) symbols dates t hs)
          ! (i - t) ! ((h - 1) * length symbols + k)
        \<le> snd (prepareSamples pivotedData symbols dates t hs)
          ! (i - t) ! ((h - 1) * length symbols + k))"
proof (intro conjI allI impI)
  fix symbol d1 d2 r1 r2
  assume "lookup2 pivotedData symbol d1 = Some r1 \<and> lookup2 pivotedData symbol d2 = Some r2"
  then obtain series where "map_of pivotedData symbol = Some series"
    "map_of series d1 = Some r1" "map_of series d2 = Some r2"
    by (auto simp: lookup2_Some)
  then show "\<exists>n1 n2. lookup2 (fst (normalizeData pivotedData)) symbol d1 = Some n1 \<and>
               lookup2 (fst (normalizeData pivotedData)) symbol d2 = Some n2 \<and>
               (js_gt (Close n1) (Close n2) \<longrightarrow> js_gt (Close r1) (Close r2))"
    by (rule normalized_gt_imp)
next
  fix symbols dates :: "string list" and t hs i h k :: nat
  let ?N = "fst (normalizeData pivotedData)"
  assume a: "distinct dates \<and> t \<le> i \<and> i + hs < length dates \<and> 1 \<le> h \<and> h \<le> hs \<and>
      k < length symbols \<and>
      lookup2 pivotedData (symbols ! k) (dates ! i) \<noteq> None \<and>
      lookup2 pivotedData (symbols ! k) (dates ! (i + h)) \<noteq> None"
  then obtain cur fut where
    cur: "lookup2 pivotedData (symbols ! k) (dates ! i) = Some cur" and
    fut: "lookup2 pivotedData (symbols ! k) (dates ! (i + h)) = Some fut" by auto
  then obtain series where s: "map_of pivotedData (symbols ! k) = Some series"
    "map_of series (dates ! i) = Some cur" "map_of series (dates ! (i + h)) = Some fut"
    by (auto simp: lookup2_Some)
  from normalized_gt_imp[OF s(1) s(3) s(2)] obtain nf nc where
    n: "lookup2 ?N (symbols ! k) (dates ! (i + h)) = Some nf"
       "lookup2 ?N (symbols ! k) (dates ! i) = Some nc"
       "js_gt (Close nf) (Close nc) \<longrightarrow> js_gt (Close fut) (Close cur)" by blast
  from a have b: "distinct dates" "t \<le> i" "i + hs < length dates" "1 \<le> h" "h \<le> hs"
    "k < length symbols" by simp_all
  show "snd (prepareSamples ?N symbols dates t hs) ! (i - t) ! ((h - 1) * length symbols + k)
        \<le> snd (prepareSamples pivotedData symbols dates t hs)
          ! (i - t) ! ((h - 1) * length symbols + k)"
    unfolding target_bit_eq[OF b] using n(3)
    by (simp add: currentClosePrices_def cur fut n(1,2))
qed


theorem normalized_close_order_witness:
  "lookup2 [(''AAPL'', [(''2024-01-01'', \<lparr>Open = Fin 10, Close = Fin 10\<rparr>),
                        (''2024-01-02'', \<lparr>Open = Fin 12, Close = Fin 14\<rparr>),
                        (''2024-01-03'', \<lparr>Open = Fin 14, Close = Fin 12\<rparr>)])]
      ''AAPL'' ''2024-01-02'' = Some \<lparr>Open = Fin 12, Close = Fin 14\<rparr> \<and>
   lookup2 [(''AAPL'', [(''2024-01-01'', \<lparr>Open = Fin 10, Close = Fin 10\<rparr>),
                        (''2024-01-02'', \<lparr>Open = Fin 12, Close = Fin 14\<rparr>),
                        (''2024-01-03'', \<lparr>Open = Fin 14, Close = Fin 12\<rparr>)])]
      ''AAPL'' ''2024-01-01'' = Some \<lparr>Open = Fin 10, Close = Fin 10\<rparr> \<and>
   lookup2 (fst (normalizeData
       [(''AAPL'', [(''2024-01-01'', \<lparr>Open = Fin 10, Close = Fin 10\<rparr>),
                    (''2024-01-02'', \<lparr>Open = Fin 12, Close = Fin 14\<rparr>),
                    (''2024-01-03'', \<lparr>Open = Fin 14, Close = Fin 12\<rparr>)])]))
      ''AAPL'' ''2024-01-02'' = Some \<lparr>Open = Fin (1/2), Close = Fin 1\<rparr> \<and>
   lookup2 (fst (normalizeData
       [(''AAPL'', [(''2024-01-01'', \<lparr>Open = Fin 10, Close = Fin 10\<rparr>),
                    (''2024-01-02'', \<lparr>Open = Fin 12, Close = Fin 14\<rparr>),
                    (''2024-01-03'', \<lparr>Open = Fin 14, Close = Fin 12\<rparr>)])]))
      ''AAPL'' ''2024-01-01'' = Some \<lparr>Open = Fin 0, Close = Fin 0\<rparr> \<and>
   js_gt (Fin 1) (Fin 0) \<and> js_gt (Fin 14) (Fin 10)"
proof -
  define pd where "pd = [(''AAPL'', [(''2024-01-01'', \<lparr>Open = Fin 10, Close = Fin 10\<rparr>),
                        (''2024-01-02'', \<lparr>Open = Fin 12, Close = Fin 14\<rparr>),
                        (''2024-01-03'', \<lparr>Open = Fin 14, Close = Fin 12\<rparr>)])]"
  have r1: "lookup2 pd ''AAPL'' ''2024-01-02'' = Some \<lparr>Open = Fin 12, Close = Fin 14\<rparr>"
    and r2: "lookup2 pd ''AAPL'' ''2024-01-01'' = Some \<lparr>Open = Fin 10, Close = Fin 10\<rparr>"
    unfolding pd_def by (simp_all add: lookup2_def)
  have n1: "lookup2 (fst (normalizeData pd)) ''AAPL'' ''2024-01-02'' =
              Some \<lparr>Open = Fin (1/2), Close = Fin 1\<rparr>"
    and n2: "lookup2 (fst (normalizeData pd)) ''AAPL'' ''2024-01-01'' =
              Some \<lparr>Open = Fin 0, Close = Fin 0\<rparr>"
    unfolding pd_def by code_simp+
  have g: "js_gt (Fin 1) (Fin 0)" by (simp add: js_gt_def)
  from normalized_close_order[of pd] r1 r2 obtain m1 m2 where
    m: "lookup2 (fst (normalizeData pd)) ''AAPL'' ''2024-01-02'' = Some m1"
       "lookup2 (fst (normalizeData pd)) ''AAPL'' ''2024-01-01'' = Some m2"
       "js_gt (Close m1) (Close m2) \<longrightarrow>
          js_gt (Close \<lparr>Open = Fin 12, Close = Fin 14\<rparr>) (Close \<lparr>Open = Fin 10, Close = Fin 10\<rparr>)"
    by blast
  from m(1,2) n1 n2 have "Close m1 = Fin 1" "Close m2 = Fin 0" by auto
  with m(3) g have "js_gt (Fin 14) (Fin 10)" by simp
  with r1 r2 n1 n2 g show ?thesis unfolding pd_def by simp
qed

text \<open>
  Claim C10 as stated fails. The Close values of the entity are \<open>-2^53\<close>, \<open>0\<close>, \<open>1\<close> and
  \<open>2^53\<close>, so \<open>max > min\<close>. The differences \<open>0 - min\<close> and \<open>1 - min\<close> both round to
  \<open>2^53\<close>, and both values are normalized to \<open>0.5\<close>: the raw Close of the third date is
  strictly greater than that of the second, the normalized one is not, and the label of
  the second date is \<open>1\<close> from the raw prices and \<open>0\<close> from the normalized ones.
\<close>

theorem normalized_close_collapse:
  "snd (normalizeData
     [(''AAPL'', [(''2024-01-01'', \<lparr>Open = Fin 0, Close = Fin (- 9007199254740992)\<rparr>),
                  (''2024-01-02'', \<lparr>Open = Fin 4, Close = Fin 0\<rparr>),
                  (''2024-01-03'', \<lparr>Open = Fin 2, Close = Fin 1\<rparr>),
                  (''2024-01-04'', \<lparr>Open = Fin 1, Close = Fin 9007199254740992\<rparr>)])]) =
     [(''AAPL'', (\<lparr>mm_min = Fin 0, mm_max = Fin 4\<rparr>,
                  \<lparr>mm_min = Fin (- 9007199254740992), mm_max = Fin 9007199254740992\<rparr>))] \<and>
   fst (normalizeData
     [(''AAPL'', [(''2024-01-01'', \<lparr>Open = Fin 0, Close = Fin (- 9007199254740992)\<rparr>),
                  (''2024-01-02'', \<lparr>Open = Fin 4, Close = Fin 0\<rparr>),
                  (''2024-01-03'', \<lparr>Open = Fin 2, Close = Fin 1\<rparr>),
                  (''2024-01-04'', \<lparr>Open = Fin 1, Close = Fin 9007199254740992\<rparr>)])]) =
     [(''AAPL'', [(''2024-01-01'', \<lparr>Open = Fin 0, Close = Fin 0\<rparr>),
                  (''2024-01-02'', \<lparr>Open = Fin 1, Close = Fin (1/2)\<rparr>),
                  (''2024-01-03'', \<lparr>Open = Fin (1/2), Close = Fin (1/2)\<rparr>),
                  (''2024-01-04'', \<lparr>Open = Fin (1/4), Close = Fin 1\<rparr>)])] \<and>
   js_gt (Fin 1) (Fin 0) \<and> \<not> js_gt (Fin (1/2)) (Fin (1/2)) \<and>
   snd (prepareSamples
     [(''AAPL'', [(''2024-01-01'', \<lparr>Open = Fin 0, Close = Fin (- 9007199254740992)\<rparr>),
                  (''2024-01-02'', \<lparr>Open = Fin 4, Close = Fin 0\<rparr>),
                  (''2024-01-03'', \<lparr>Open = Fin 2, Close = Fin 1\<rparr>),
                  (''2024-01-04'', \<lparr>Open = Fin 1, Close = Fin 9007199254740992\<rparr>)])]
     [''AAPL''] [''2024-01-01'', ''2024-01-02'', ''2024-01-03'', ''2024-01-04''] 1 1) = [[1], [1]] \<and>
   snd (prepareSamples
     [(''AAPL'', [(''2024-01-01'', \<lparr>Open = Fin 0, Close = Fin 0\<rparr>),
                  (''2024-01-02'', \<lparr>Open = Fin 1, Close = Fin (1/2)\<rparr>),
                  (''2024-01-03'', \<lparr>Open = Fin (1/2), Close = Fin (1/2)\<rparr>),
                  (''2024-01-04'', \<lparr>Open = Fin (1/4), Close = Fin 1\<rparr>)])]
     [''AAPL''] [''2024-01-01'', ''2024-01-02'', ''2024-01-03'', ''2024-01-04''] 1 1) = [[0], [1]]"
  by code_simp

text \<open>
  Where the computed minimum and maximum of an entity's Close values are equal, every
  normalized Close of the entity is \<open>NaN\<close>: the code divides zero by zero.
\<close>

lemma normalized_degenerate_NaN:
  assumes "map_of pivotedData symbol = Some series" "map_of series date = Some r"
    "js_strict_eq (Math_min (map Close (map snd series))) (Math_max (map Close (map snd series)))"
  shows "\<exists>n. lookup2 (fst (normalizeData pivotedData)) symbol date = Some n \<and> Close n = NaN"
  using lookup2_normalized_Close[OF assms(1,2)]
    scale_degenerate[OF assms(3) series_nonempty(2)[OF assms(2)]] by auto

text \<open>
  Claim C2. Where \<open>max = min\<close> the Normalizer is to output \<open>0\<close>, never \<open>NaN\<close>. The code has
  no guard for this case: for an entity whose Close is \<open>12\<close> at both of its dates, both
  normalized Close values are \<open>NaN\<close> (\<open>normalized_degenerate_NaN\<close> shows it for every
  such entity).
\<close>

theorem normalizeData_constant_close:
  "fst (normalizeData
     [(''AAPL'', [(''2024-01-01'', \<lparr>Open = Fin 10, Close = Fin 12\<rparr>),
                  (''2024-01-02'', \<lparr>Open = Fin 11, Close = Fin 12\<rparr>)])]) =
   [(''AAPL'', [(''2024-01-01'', \<lparr>Open = Fin 0, Close = NaN\<rparr>),
                (''2024-01-02'', \<lparr>Open = Fin 1, Close = NaN\<rparr>)])]"
  by code_simp

subsection \<open>Per-entity accuracy\<close>

text \<open>
  The threshold is strict: a prediction of exactly \<open>0.5\<close> is the class \<open>0\<close>.
\<close>

lemma predVal_tie: "predVal [Fin (1/2)] 0 = Fin 0"
  by (simp add: predVal_def js_gt_def)

lemma days_loop_counts:
  "\<exists>c'. days_loop trueRow (Some p) n k days (c, t) = Inr (c', t + length days) \<and>
        c \<le> c' \<and> c' \<le> c + length days"
proof (induction days arbitrary: c t)
  case Nil
  then show ?case by simp
next
  case (Cons day days)
  let ?c = "if is_correct trueRow p (day * n + k) then Suc c else c"
  from Cons[of ?c "Suc t"] obtain c' where
    "days_loop trueRow (Some p) n k days (?c, Suc t) = Inr (c', Suc t + length days)"
    "?c \<le> c'" "c' \<le> ?c + length days" by blast
  then show ?case by (auto split: if_splits)
qed

lemma samples_loop_counts:
  assumes "length predData = length trueData"
  shows "\<exists>c'. samples_loop trueData predData n k d (c, t) = Inr (c', t + length trueData * d) \<and>
           c \<le> c' \<and> c' \<le> c + length trueData * d"
  using assms
proof (induction trueData arbitrary: predData c t)
  case Nil
  then show ?case by simp
next
  case (Cons trueRow trueData)
  then obtain p ps where pd: "predData = p # ps" "length ps = length trueData"
    by (cases predData) auto
  from days_loop_counts[of trueRow p n k "[0..<d]" c t] obtain c1 where
    c1: "days_loop trueRow (Some p) n k [0..<d] (c, t) = Inr (c1, t + d)" "c \<le> c1" "c1 \<le> c + d"
    by auto
  from Cons.IH[OF pd(2), of c1 "t + d"] obtain c' where
    c': "samples_loop trueData ps n k d (c1, t + d) = Inr (c', t + d + length trueData * d)"
        "c1 \<le> c'" "c' \<le> c1 + length trueData * d" by blast
  from c1 c' show ?case by (simp add: pd add.assoc)
qed

lemma ratio_in_unit_interval:
  assumes "c \<le> t" "0 < t"
  shows "\<exists>r. js_div (Fin (of_nat c)) (Fin (of_nat t)) = Fin r \<and> 0 \<le> r \<and> r \<le> 1"
proof -
  let ?q = "of_nat c / of_nat t :: rat"
  have q: "0 \<le> ?q" "?q \<le> 1" using assms by simp_all
  have one: "js_round 1 = Fin 1" using js_round_nat[of 1] by simp
  from js_round_mono[OF q(1)] have lo: "\<not> js_lt (js_round ?q) (Fin 0)" by simp
  from js_round_mono[OF q(2)] have hi: "\<not> js_lt (Fin 1) (js_round ?q)" by (simp add: one)
  have "js_div (Fin (of_nat c)) (Fin (of_nat t)) = js_round ?q" using assms(2) by simp
  with lo hi show ?thesis by (cases "js_round ?q") auto
qed

lemma stock_accuracy_range:
  assumes "length predData = length trueData" "trueData \<noteq> []" "0 < daysAhead"
  shows "\<exists>r. stock_accuracy trueData predData n daysAhead k = Inr (Fin r) \<and> 0 \<le> r \<and> r \<le> 1"
proof -
  from samples_loop_counts[OF assms(1), of n k daysAhead 0 0] obtain c where
    c: "samples_loop trueData predData n k daysAhead (0, 0) = Inr (c, length trueData * daysAhead)"
       "c \<le> length trueData * daysAhead" by auto
  have "0 < length trueData * daysAhead" using assms(2,3) by simp
  from ratio_in_unit_interval[OF c(2) this] obtain r where
    r: "js_div (Fin (of_nat c)) (Fin (of_nat (length trueData * daysAhead))) = Fin r"
       "0 \<le> r" "r \<le> 1" by blast
  have "stock_accuracy trueData predData n daysAhead k = Inr (Fin r)"
    unfolding stock_accuracy_def c(1) by (simp only: sum.case prod.case r(1))
  with r(2,3) show ?thesis by blast
qed

lemma obj_set_all:
  "list_all (\<lambda>e. P (snd e)) obj \<Longrightarrow> P v \<Longrightarrow> list_all (\<lambda>e. P (snd e)) (obj_set obj k v)"
  by (induction obj) auto

lemma symbols_loop_range:
  assumes "length predData = length trueData" "trueData \<noteq> []" "0 < daysAhead"
    and "list_all (\<lambda>e. \<exists>r. snd e = Fin r \<and> 0 \<le> r \<and> r \<le> 1) acc"
  shows "\<exists>acc'. symbols_loop trueData predData n daysAhead entries acc = Inr acc' \<and>
           list_all (\<lambda>e. \<exists>r. snd e = Fin r \<and> 0 \<le> r \<and> r \<le> 1) acc'"
  using assms(4)
proof (induction entries arbitrary: acc)
  case Nil
  then show ?case by simp
next
  case (Cons entry entries)
  obtain symbol k where e: "entry = (symbol, k)" by (cases entry)
  from stock_accuracy_range[OF assms(1-3), of n k] obtain r where
    r: "stock_accuracy trueData predData n daysAhead k = Inr (Fin r)" "0 \<le> r" "r \<le> 1" by blast
  have "list_all (\<lambda>e. \<exists>r. snd e = Fin r \<and> 0 \<le> r \<and> r \<le> 1) (obj_set acc symbol (Fin r))"
    using Cons.prems r(2,3) by (intro obj_set_all) auto
  from Cons.IH[OF this] show ?case by (simp add: e r(1))
qed

text \<open>
  With at least one example and one horizon, and a prediction row for every target row,
  the function returns, and every reported ratio is a number in \<open>[0, 1]\<close>.
\<close>

lemma calculatePerStockAccuracy_range:
  assumes "length predData = length trueData" "trueData \<noteq> []" "0 < daysAhead"
  shows "\<exists>acc. calculatePerStockAccuracy trueData predData symbols daysAhead = Inr acc \<and>
           list_all (\<lambda>e. \<exists>r. snd e = Fin r \<and> 0 \<le> r \<and> r \<le> 1) acc"
  unfolding calculatePerStockAccuracy_def
  by (rule symbols_loop_range[OF assms]) simp

text \<open>
  Claim C6. The function thresholds strictly at \<open>0.5\<close> (\<open>predVal_tie\<close>), counts correct and
  total over all examples and horizons of an entity, and reports a ratio in \<open>[0, 1]\<close>
  whenever there is an example (\<open>calculatePerStockAccuracy_range\<close>). With no example
  the two counters stay \<open>0\<close> and the ratio of every entity is \<open>0 / 0\<close>, which is \<open>NaN\<close> and
  not in \<open>[0, 1]\<close>; the per-class accuracy of the digit demo guards the same division.
\<close>

theorem calculatePerStockAccuracy_no_examples:
  "calculatePerStockAccuracy [] [] [''AAPL'', ''MSFT''] 3 = Inr [(''AAPL'', NaN), (''MSFT'', NaN)]"
  by (simp add: calculatePerStockAccuracy_def stock_accuracy_def upt_rec)

end
